theory Spec2Isabelle
  imports Main
begin

unbundle bit_operations_syntax

section \<open>JavaScript values that reach the digest\<close>

text \<open>
  The program is the proof-of-work version of the blockchain script (classes \<open>Block\<close> and
  \<open>Blockchain\<close> with \<open>mineBlock\<close>, \<open>addBlock\<close> and \<open>isChainValid\<close>).
  A block's digest is taken over the JavaScript expression
  \<^verbatim>\<open>this.index + this.timestamp + this.previousHash + JSON.stringify(this.data) + this.nonce\<close>,
  so the model keeps the values the script really stores in these fields:
  \<^item> \<open>index\<close> is a number (the genesis block has \<open>0\<close>) or a string (the demo passes
    \<open>"1"\<close> and \<open>"2"\<close>);
  \<^item> \<open>timestamp\<close>, \<open>previousHash\<close> and \<open>hash\<close> are strings;
  \<^item> \<open>data\<close> is a JSON-like value, possibly \<open>undefined\<close>;
  \<^item> \<open>nonce\<close> is absent while the constructor computes the first digest, then the string
    \<open>'0'\<close>, then a number once \<open>this.nonce++\<close> has run.
  Strings are sequences of code points below 256. An object is the list of its own
  enumerable properties in enumeration order, its keys all different.
\<close>

datatype js_error = RangeError | TypeError

text \<open>
  Numbers are the naturals up to \<open>2^53\<close>: each of them is an IEEE double, and JavaScript
  prints it in decimal digit for digit. \<open>js_int n\<close> is the number \<open>n\<close> for
  \<open>n \<le> 2^53\<close>, \<open>js_nat\<close> reads a number back. Larger numbers, fractions and negative
  numbers are not values of the model.
\<close>

typedef js_integer = "{n::nat. n \<le> 9007199254740992}"
  morphisms js_nat js_int
  by (rule exI [of _ 0]) simp

datatype jsindex = IndexNumber js_integer | IndexString string

datatype json =
    JUndefined
  | JNull
  | JBool bool
  | JNumber js_integer
  | JString string
  | JArray "json list"
  | JObject "(string \<times> json) list"

datatype jsnonce = NonceUndefined | NonceString0 | NonceNumber js_integer | NonceNaN

definition digit_char :: "nat \<Rightarrow> char" where
  "digit_char n = ''0123456789abcdef'' ! n"

text \<open>The decimal digits of a natural number.\<close>

fun decimal :: "nat \<Rightarrow> string" where
  "decimal n = (if n < 10 then [digit_char n] else decimal (n div 10) @ [digit_char (n mod 10)])"

declare decimal.simps [simp del]

definition index_to_string :: "jsindex \<Rightarrow> string" where
  "index_to_string i = (case i of IndexNumber n \<Rightarrow> decimal (js_nat n) | IndexString s \<Rightarrow> s)"

definition nonce_to_string :: "jsnonce \<Rightarrow> string" where
  "nonce_to_string n =
     (case n of
        NonceUndefined \<Rightarrow> ''undefined''
      | NonceString0 \<Rightarrow> ''0''
      | NonceNumber k \<Rightarrow> decimal (js_nat k)
      | NonceNaN \<Rightarrow> ''NaN'')"

text \<open>
  \<open>this.nonce++\<close>: the operand is converted to a number and incremented. The string
  \<open>'0'\<close> becomes \<open>1\<close>, \<open>undefined\<close> becomes \<open>NaN\<close>. Numbers are IEEE doubles: below
  \<open>2^53\<close> the increment is exact, at \<open>2^53\<close> the sum rounds back to \<open>2^53\<close>.
\<close>

definition js_increment :: "jsnonce \<Rightarrow> jsnonce" where
  "js_increment n =
     (case n of
        NonceUndefined \<Rightarrow> NonceNaN
      | NonceString0 \<Rightarrow> NonceNumber (js_int 1)
      | NonceNumber k \<Rightarrow>
          NonceNumber (js_int (if js_nat k < 9007199254740992 then js_nat k + 1 else js_nat k))
      | NonceNaN \<Rightarrow> NonceNaN)"

subsection \<open>\<open>JSON.stringify\<close>\<close>

text \<open>
  Characters of a string are quoted as \<open>JSON.stringify\<close> does: the double quote and the
  backslash are escaped, control characters get their short escape or \<open>\u00XX\<close>.
\<close>

definition quote_char :: "char \<Rightarrow> string" where
  "quote_char c =
     (let n = (of_char c :: nat) in
      if n = 34 then [CHR 0x5C, CHR 0x22]
      else if n = 92 then [CHR 0x5C, CHR 0x5C]
      else if n = 8 then [CHR 0x5C, CHR ''b'']
      else if n = 9 then [CHR 0x5C, CHR ''t'']
      else if n = 10 then [CHR 0x5C, CHR ''n'']
      else if n = 12 then [CHR 0x5C, CHR ''f'']
      else if n = 13 then [CHR 0x5C, CHR ''r'']
      else if n < 32 then [CHR 0x5C, CHR ''u'', CHR ''0'', CHR ''0'', digit_char (n div 16), digit_char (n mod 16)]
      else [c])"

definition quote :: "string \<Rightarrow> string" where
  "quote s = [CHR 0x22] @ concat (map quote_char s) @ [CHR 0x22]"

fun join_comma :: "string list \<Rightarrow> string" where
  "join_comma [] = []"
| "join_comma [s] = s"
| "join_comma (s # t # ss) = s @ '','' @ join_comma (t # ss)"

text \<open>
  \<open>stringify\<close> returns \<open>None\<close> where \<open>JSON.stringify\<close> returns \<open>undefined\<close>. An
  \<open>undefined\<close> array element is written \<open>null\<close>; a property whose value is
  \<open>undefined\<close> is left out.
\<close>

fun stringify :: "json \<Rightarrow> string option"
  and stringify_elements :: "json list \<Rightarrow> string list"
  and stringify_properties :: "(string \<times> json) list \<Rightarrow> string list" where
  "stringify JUndefined = None"
| "stringify JNull = Some ''null''"
| "stringify (JBool b) = Some (if b then ''true'' else ''false'')"
| "stringify (JNumber n) = Some (decimal (js_nat n))"
| "stringify (JString s) = Some (quote s)"
| "stringify (JArray xs) = Some (''['' @ join_comma (stringify_elements xs) @ '']'')"
| "stringify (JObject kvs) = Some (''{'' @ join_comma (stringify_properties kvs) @ ''}'')"
| "stringify_elements [] = []"
| "stringify_elements (x # xs) =
     (case stringify x of None \<Rightarrow> ''null'' | Some s \<Rightarrow> s) # stringify_elements xs"
| "stringify_properties [] = []"
| "stringify_properties ((k, v) # kvs) =
     (case stringify v of
        None \<Rightarrow> stringify_properties kvs
      | Some s \<Rightarrow> (quote k @ '':'' @ s) # stringify_properties kvs)"

section \<open>The digest primitive\<close>

text \<open>
  Modelled from the spec: the digest primitive is the external package \<open>crypto-js\<close>, which
  is not part of the repository; the spec describes it as a 256-bit digest written as 64
  lowercase hexadecimal characters. \<open>SHA256(s).toString()\<close> is SHA-256 (FIPS 180-4) of the
  UTF-8 bytes of \<open>s\<close>. Words are integers below \<open>2^32\<close>.

  Every operation of the program below takes the digest function as its parameter \<open>H\<close>;
  \<open>sha256_hex\<close> is the instance the script runs with.
\<close>

text \<open>
  The round constants are the first 32 bits of the fractional parts of the cube roots of
  the first 64 primes, the initial state those of the square roots of the first 8 primes.
  \<open>root_search k b n r\<close> finds the integer \<open>k\<close>-th root of \<open>n\<close> bit by bit, from bit
  \<open>b - 1\<close> down.
\<close>

definition first_primes :: "int list" where
  "first_primes = [2, 3, 5, 7, 11, 13, 17, 19, 23, 29, 31, 37, 41, 43, 47, 53,
     59, 61, 67, 71, 73, 79, 83, 89, 97, 101, 103, 107, 109, 113, 127, 131,
     137, 139, 149, 151, 157, 163, 167, 173, 179, 181, 191, 193, 197, 199, 211, 223,
     227, 229, 233, 239, 241, 251, 257, 263, 269, 271, 277, 281, 283, 293, 307, 311]"

fun root_search :: "nat \<Rightarrow> nat \<Rightarrow> int \<Rightarrow> int \<Rightarrow> int" where
  "root_search k 0 n r = r"
| "root_search k (Suc b) n r =
     (if (r + 2 ^ b) ^ k \<le> n then root_search k b n (r + 2 ^ b) else root_search k b n r)"

definition fraction_bits :: "nat \<Rightarrow> int \<Rightarrow> int" where
  "fraction_bits k p = root_search k 40 (p * 2 ^ (32 * k)) 0 mod 2 ^ 32"

definition K256 :: "int list" where
  "K256 = map (fraction_bits 3) first_primes"

definition H256 :: "int list" where
  "H256 = map (fraction_bits 2) (take 8 first_primes)"

definition add32 :: "int \<Rightarrow> int \<Rightarrow> int" where
  "add32 x y = (x + y) mod 4294967296"

definition rotr :: "nat \<Rightarrow> int \<Rightarrow> int" where
  "rotr n x = x div 2 ^ n + (x mod 2 ^ n) * 2 ^ (32 - n)"

definition Ch :: "int \<Rightarrow> int \<Rightarrow> int \<Rightarrow> int" where
  "Ch x y z = (x AND y) XOR ((4294967295 - x) AND z)"

definition Maj :: "int \<Rightarrow> int \<Rightarrow> int \<Rightarrow> int" where
  "Maj x y z = (x AND y) XOR (x AND z) XOR (y AND z)"

definition Sigma0 :: "int \<Rightarrow> int" where
  "Sigma0 x = rotr 2 x XOR rotr 13 x XOR rotr 22 x"

definition Sigma1 :: "int \<Rightarrow> int" where
  "Sigma1 x = rotr 6 x XOR rotr 11 x XOR rotr 25 x"

definition sigma0 :: "int \<Rightarrow> int" where
  "sigma0 x = rotr 7 x XOR rotr 18 x XOR x div 2 ^ 3"

definition sigma1 :: "int \<Rightarrow> int" where
  "sigma1 x = rotr 17 x XOR rotr 19 x XOR x div 2 ^ 10"

text \<open>
  The message schedule is kept newest word first: with \<open>t\<close> words present, position \<open>j\<close>
  holds \<open>W\<^sub>t\<^sub>-\<^sub>1\<^sub>-\<^sub>j\<close>.
\<close>

fun schedule :: "nat \<Rightarrow> int list \<Rightarrow> int list" where
  "schedule 0 ws = ws"
| "schedule (Suc n) ws =
     schedule n (add32 (add32 (sigma1 (ws ! 1)) (ws ! 6)) (add32 (sigma0 (ws ! 14)) (ws ! 15)) # ws)"

fun round256 :: "int list \<Rightarrow> int \<times> int \<Rightarrow> int list" where
  "round256 [a, b, c, d, e, f, g, h] (k, w) =
     (let t1 = add32 (add32 (add32 h (Sigma1 e)) (add32 (Ch e f g) k)) w;
          t2 = add32 (Sigma0 a) (Maj a b c)
      in [add32 t1 t2, a, b, c, add32 d t1, e, f, g])"
| "round256 st _ = st"

definition compress :: "int list \<Rightarrow> int list \<Rightarrow> int list" where
  "compress st blk =
     map2 add32 st (foldl round256 st (zip K256 (rev (schedule 48 (rev blk)))))"

definition be32 :: "int list \<Rightarrow> int" where
  "be32 bs = foldl (\<lambda>acc b. acc * 256 + b) 0 bs"

fun words_of :: "nat \<Rightarrow> int list \<Rightarrow> int list" where
  "words_of 0 bs = []"
| "words_of (Suc n) bs = be32 (take 4 bs) # words_of n (drop 4 bs)"

fun blocks_of :: "nat \<Rightarrow> int list \<Rightarrow> int list list" where
  "blocks_of 0 bs = []"
| "blocks_of (Suc n) bs = words_of 16 (take 64 bs) # blocks_of n (drop 64 bs)"

definition pad :: "int list \<Rightarrow> int list" where
  "pad m =
     (let l = length m; z = (119 - l mod 64) mod 64
      in m @ [128] @ replicate z 0 @ map (\<lambda>i. (int (8 * l) div 256 ^ i) mod 256) (rev [0..<8]))"

definition sha256 :: "int list \<Rightarrow> int list" where
  "sha256 m = (let p = pad m in foldl compress H256 (blocks_of (length p div 64) p))"

definition hex32 :: "int \<Rightarrow> string" where
  "hex32 w = map (\<lambda>i. digit_char (nat ((w div 16 ^ i) mod 16))) (rev [0..<8])"

definition utf8 :: "char \<Rightarrow> int list" where
  "utf8 c = (let n = (of_char c :: int) in if n < 128 then [n] else [192 + n div 64, 128 + n mod 64])"

definition sha256_hex :: "string \<Rightarrow> string" where
  "sha256_hex s = concat (map hex32 (sha256 (concat (map utf8 s))))"

section \<open>Block\<close>

record block =
  index :: jsindex
  timestamp :: string
  data :: json
  previousHash :: string
  hash :: string
  nonce :: jsnonce

text \<open>
  The string that \<open>calculateHash\<close> hands to the digest. The operands are joined from the
  left; \<open>timestamp\<close> is a string, so every \<open>+\<close> is a concatenation. \<open>payload_text\<close> is
  what the concatenation writes for \<open>JSON.stringify(this.data)\<close>: the serialization, or
  \<open>undefined\<close> where \<open>JSON.stringify\<close> returns \<open>undefined\<close>.
\<close>

definition payload_text :: "json \<Rightarrow> string" where
  "payload_text d = (case stringify d of None \<Rightarrow> ''undefined'' | Some s \<Rightarrow> s)"

definition hash_input :: "block \<Rightarrow> string" where
  "hash_input b =
     index_to_string (index b) @ timestamp b @ previousHash b
       @ payload_text (data b) @ nonce_to_string (nonce b)"

definition calculateHash :: "(string \<Rightarrow> string) \<Rightarrow> block \<Rightarrow> string" where
  "calculateHash H b = H (hash_input b)"

text \<open>
  The constructor assigns the fields in the order of the source: the four arguments, then
  \<open>hash\<close> from \<open>calculateHash\<close>, then \<open>nonce\<close>. While \<open>calculateHash\<close> runs the object has
  no \<open>nonce\<close> property yet, so \<open>this.nonce\<close> reads \<open>undefined\<close>. The argument
  \<open>previousHash\<close> is optional and defaults to the empty string.
\<close>

definition Block_new ::
  "(string \<Rightarrow> string) \<Rightarrow> jsindex \<Rightarrow> string \<Rightarrow> json \<Rightarrow> string option \<Rightarrow> block" where
  "Block_new H i t d p =
     (let this0 = \<lparr>index = i, timestamp = t, data = d,
                   previousHash = (case p of None \<Rightarrow> [] | Some s \<Rightarrow> s),
                   hash = [], nonce = NonceUndefined\<rparr>;
          this1 = this0\<lparr>hash := calculateHash H this0\<rparr>
      in this1\<lparr>nonce := NonceString0\<rparr>)"

text \<open>
  \<open>mineBlock\<close>: the loop test compares \<open>this.hash.substring('0', difficulty)\<close>, the first
  \<open>difficulty\<close> characters of the digest (all of it when it is shorter), with
  \<open>Array(difficulty + 1).join("0")\<close>, a string of \<open>difficulty\<close> zeros. \<open>Array(n)\<close> raises
  \<open>RangeError\<close> for \<open>n\<close> above \<open>2^32 - 1\<close>, and \<open>join\<close> raises \<open>RangeError\<close> when the
  string would be longer than the engine allows: the script runs on Node, whose engine V8
  allows \<open>2^29 - 24\<close> characters. The loop has no bound: a run that never leaves it is
  the value \<open>None\<close>. The \<open>console.log\<close> after the loop is not modelled.
\<close>

definition max_string_length :: nat where
  "max_string_length = 536870888"

partial_function (option) mineBlock ::
  "(string \<Rightarrow> string) \<Rightarrow> nat \<Rightarrow> block \<Rightarrow> (js_error + block) option" where
  "mineBlock H difficulty b =
     (if 4294967295 < difficulty + 1 \<or> max_string_length < difficulty then Some (Inl RangeError)
      else if take difficulty (hash b) \<noteq> replicate difficulty CHR ''0'' then
        mineBlock H difficulty
          (b\<lparr>nonce := js_increment (nonce b),
             hash := calculateHash H (b\<lparr>nonce := js_increment (nonce b)\<rparr>)\<rparr>)
      else Some (Inr b))"

section \<open>Blockchain\<close>

text \<open>The field \<open>chain\<close> of the source is \<open>chain_list\<close> here.\<close>

record blockchain =
  chain_list :: "block list"
  difficulty :: nat

definition createGenesisBlock :: "(string \<Rightarrow> string) \<Rightarrow> block" where
  "createGenesisBlock H =
     Block_new H (IndexNumber (js_int 0)) ''23/01/2018'' (JString ''Genesis block data'')
       (Some ''0'')"

definition Blockchain_new :: "(string \<Rightarrow> string) \<Rightarrow> blockchain" where
  "Blockchain_new H = \<lparr>chain_list = [createGenesisBlock H], difficulty = 5\<rparr>"

text \<open>\<open>this.chain[this.chain.length - 1]\<close> is \<open>undefined\<close> (\<open>None\<close>) on an empty array.\<close>

definition getLatestBlock :: "blockchain \<Rightarrow> block option" where
  "getLatestBlock c =
     (if chain_list c = [] then None else Some (chain_list c ! (length (chain_list c) - 1)))"

text \<open>
  \<open>addBlock\<close>: reading \<open>.hash\<close> of \<open>undefined\<close> raises \<open>TypeError\<close>. Blocks are values
  here, so \<open>addBlock\<close> is the call with a candidate that is an object of its own, as
  \<open>new Block(...)\<close> returns it; the call with an object that the chain already holds is
  \<open>addBlock_held\<close> below.
\<close>

definition addBlock ::
  "(string \<Rightarrow> string) \<Rightarrow> blockchain \<Rightarrow> block \<Rightarrow> (js_error + blockchain) option" where
  "addBlock H c newBlock =
     (case getLatestBlock c of
        None \<Rightarrow> Some (Inl TypeError)
      | Some latest \<Rightarrow>
          (case mineBlock H (difficulty c) (newBlock\<lparr>previousHash := hash latest\<rparr>) of
             None \<Rightarrow> None
           | Some (Inl e) \<Rightarrow> Some (Inl e)
           | Some (Inr mined) \<Rightarrow> Some (Inr (c\<lparr>chain_list := chain_list c @ [mined]\<rparr>))))"

text \<open>
  \<open>addBlock\<close> called with an object that the chain already holds,
  \<open>chain.addBlock(chain.chain[i])\<close>, on a chain whose positions hold different objects:
  the assignment of step 1 and the mining change the object at position \<open>i\<close>, and the
  same object is pushed. Where the call raises, the assignment of step 1 has been done
  already, so the error comes with the chain as it is left. \<open>chain[i]\<close> outside the
  array is \<open>undefined\<close>, and assigning to its property raises \<open>TypeError\<close>.
\<close>

definition addBlock_held ::
  "(string \<Rightarrow> string) \<Rightarrow> blockchain \<Rightarrow> nat \<Rightarrow> (js_error \<times> blockchain + blockchain) option" where
  "addBlock_held H c i =
     (if i < length (chain_list c) then
        (case getLatestBlock c of
           None \<Rightarrow> Some (Inl (TypeError, c))
         | Some latest \<Rightarrow>
             (case mineBlock H (difficulty c) ((chain_list c ! i)\<lparr>previousHash := hash latest\<rparr>) of
                None \<Rightarrow> None
              | Some (Inl e) \<Rightarrow>
                  Some (Inl (e, c\<lparr>chain_list :=
                    (chain_list c)[i := (chain_list c ! i)\<lparr>previousHash := hash latest\<rparr>]\<rparr>))
              | Some (Inr mined) \<Rightarrow>
                  Some (Inr (c\<lparr>chain_list := (chain_list c)[i := mined] @ [mined]\<rparr>))))
      else Some (Inl (TypeError, c)))"

function isChainValid_from :: "(string \<Rightarrow> string) \<Rightarrow> block list \<Rightarrow> nat \<Rightarrow> bool" where
  "isChainValid_from H bs i =
     (if i < length bs then
        (if hash (bs ! i) \<noteq> calculateHash H (bs ! i) then False
         else if previousHash (bs ! i) \<noteq> hash (bs ! (i - 1)) then False
         else isChainValid_from H bs (i + 1))
      else True)"
  by pat_completeness auto
termination
  by (relation "measure (\<lambda>(H, bs, i). length bs - i)") auto

declare isChainValid_from.simps [simp del]

definition isChainValid :: "(string \<Rightarrow> string) \<Rightarrow> blockchain \<Rightarrow> bool" where
  "isChainValid H c = isChainValid_from H (chain_list c) 1"

section \<open>Callers: the demo script and a tamperer\<close>

text \<open>
  The script ends with a demo: it builds a chain, appends blocks made with
  \<open>new Block(index, timestamp, data)\<close> and asks \<open>isChainValid\<close>. A construction
  sequence is the list of these constructor arguments; \<open>build_chain\<close> replays it on a new
  chain whose \<open>difficulty\<close> field has been set to \<open>d\<close> (the constructor sets 5).
\<close>

type_synonym construction = "jsindex \<times> string \<times> json"

fun add_all ::
  "(string \<Rightarrow> string) \<Rightarrow> blockchain \<Rightarrow> construction list \<Rightarrow> (js_error + blockchain) option" where
  "add_all H c [] = Some (Inr c)"
| "add_all H c ((i, t, p) # rest) =
     (case addBlock H c (Block_new H i t p None) of
        None \<Rightarrow> None
      | Some (Inl e) \<Rightarrow> Some (Inl e)
      | Some (Inr c') \<Rightarrow> add_all H c' rest)"

definition build_chain ::
  "(string \<Rightarrow> string) \<Rightarrow> nat \<Rightarrow> construction list \<Rightarrow> (js_error + blockchain) option" where
  "build_chain H d steps = add_all H ((Blockchain_new H)\<lparr>difficulty := d\<rparr>) steps"

definition digests :: "blockchain \<Rightarrow> string list" where
  "digests c = map hash (chain_list c)"

definition digest_sequence ::
  "(string \<Rightarrow> string) \<Rightarrow> nat \<Rightarrow> construction list \<Rightarrow> (js_error + string list) option" where
  "digest_sequence H d steps =
     (case build_chain H d steps of
        None \<Rightarrow> None
      | Some (Inl e) \<Rightarrow> Some (Inl e)
      | Some (Inr c) \<Rightarrow> Some (Inr (digests c)))"

text \<open>
  Two construction steps have the same text when their indices print alike, their
  timestamps are equal and their payloads serialize alike; two blocks are alike when, in
  addition, they carry the same \<open>previousHash\<close>, digest and nonce.
\<close>

definition same_text :: "construction \<Rightarrow> construction \<Rightarrow> bool" where
  "same_text s s' =
     (index_to_string (fst s) = index_to_string (fst s') \<and> fst (snd s) = fst (snd s') \<and>
      payload_text (snd (snd s)) = payload_text (snd (snd s')))"

definition alike :: "block \<Rightarrow> block \<Rightarrow> bool" where
  "alike b b' =
     (index_to_string (index b) = index_to_string (index b') \<and> timestamp b = timestamp b' \<and>
      payload_text (data b) = payload_text (data b') \<and> previousHash b = previousHash b' \<and>
      hash b = hash b' \<and> nonce b = nonce b')"

definition chains_alike :: "blockchain \<Rightarrow> blockchain \<Rightarrow> bool" where
  "chains_alike c c' = (list_all2 alike (chain_list c) (chain_list c') \<and> difficulty c = difficulty c')"

text \<open>
  The tampering of the demo: \<open>chain.chain[i].data = p\<close> and
  \<open>chain.chain[i].hash = chain.chain[i].calculateHash()\<close>. Outside the array
  \<open>chain[i]\<close> is \<open>undefined\<close> and the access raises \<open>TypeError\<close>.
\<close>

definition set_data :: "blockchain \<Rightarrow> nat \<Rightarrow> json \<Rightarrow> js_error + blockchain" where
  "set_data c i p =
     (if i < length (chain_list c)
      then Inr (c\<lparr>chain_list := (chain_list c)[i := (chain_list c ! i)\<lparr>data := p\<rparr>]\<rparr>)
      else Inl TypeError)"

definition recalculate_hash ::
  "(string \<Rightarrow> string) \<Rightarrow> blockchain \<Rightarrow> nat \<Rightarrow> js_error + blockchain" where
  "recalculate_hash H c i =
     (if i < length (chain_list c)
      then Inr (c\<lparr>chain_list :=
                  (chain_list c)[i := (chain_list c ! i)\<lparr>hash := calculateHash H (chain_list c ! i)\<rparr>]\<rparr>)
      else Inl TypeError)"

text \<open>What a returning \<open>mineBlock\<close> has done to the block it was given.\<close>

definition mined_from ::
  "(string \<Rightarrow> string) \<Rightarrow> nat \<Rightarrow> block \<Rightarrow> js_error + block \<Rightarrow> bool" where
  "mined_from H d b r =
     (case r of
        Inl e \<Rightarrow> e = RangeError \<and> max_string_length < d
      | Inr m \<Rightarrow>
          d \<le> max_string_length \<and> take d (hash m) = replicate d CHR ''0'' \<and>
          index m = index b \<and> timestamp m = timestamp b \<and> data m = data b \<and>
          previousHash m = previousHash b \<and> (m = b \<or> hash m = calculateHash H m))"

subsection \<open>Concrete blocks and chains\<close>

text \<open>The payload \<open>{amount: n}\<close>, for \<open>n\<close> up to \<open>2^53\<close>.\<close>

definition amount :: "nat \<Rightarrow> json" where
  "amount n = JObject [(''amount'', JNumber (js_int n))]"

text \<open>The two candidates of the demo, as the constructor returns them.\<close>

definition demo_candidate1 :: block where
  "demo_candidate1 = Block_new sha256_hex (IndexString ''1'') ''21/01/2018'' (amount 6) None"

definition demo_candidate2 :: block where
  "demo_candidate2 = Block_new sha256_hex (IndexString ''2'') ''22/01/2018'' (amount 2) None"

text \<open>
  The first candidate after one round of the nonce search: on a new chain whose difficulty
  is 1, the search stops at nonce 1.
\<close>

definition demo_mined1 :: block where
  "demo_mined1 =
     \<lparr>index = IndexString ''1'', timestamp = ''21/01/2018'', data = amount 6,
      previousHash = ''d82f1af7edb68b9b4bf3872669e086e5f14edc8b4920389ba754d7870a3053ba'',
      hash = ''07955b00f1b7b31749ef5b8a1a1a17a3f385abacd5abcc9305f08649cebb107d'',
      nonce = NonceNumber (js_int 1)\<rparr>"

text \<open>
  A chain of the demo's three blocks at the constructor's difficulty 5: the nonces 666377
  and 2239187 give the two appended blocks digests that start with five zeros. (That these
  are the first such nonces, the ones the search of \<open>mineBlock\<close> stops at, takes as many
  digests to check and is not checked here.)
\<close>

definition demo_block1 :: block where
  "demo_block1 =
     \<lparr>index = IndexString ''1'', timestamp = ''21/01/2018'', data = amount 6,
      previousHash = ''d82f1af7edb68b9b4bf3872669e086e5f14edc8b4920389ba754d7870a3053ba'',
      hash = ''00000dd4f4fb87c5d5a3afa0a83f6b3f2fca9d635fea087f36ae6ef1755d30f2'',
      nonce = NonceNumber (js_int 666377)\<rparr>"

definition demo_block2 :: block where
  "demo_block2 =
     \<lparr>index = IndexString ''2'', timestamp = ''22/01/2018'', data = amount 2,
      previousHash = ''00000dd4f4fb87c5d5a3afa0a83f6b3f2fca9d635fea087f36ae6ef1755d30f2'',
      hash = ''00000f4185455c7e4e4d7ee382d9eb10bdecada5311a821099593e73f2eab399'',
      nonce = NonceNumber (js_int 2239187)\<rparr>"

definition demo_chain :: blockchain where
  "demo_chain =
     \<lparr>chain_list = [createGenesisBlock sha256_hex, demo_block1, demo_block2], difficulty = 5\<rparr>"

text \<open>
  A candidate whose digest at construction already starts with five zeros:
  \<open>new Block("1", "21/01/2018", {amount: 212375})\<close>.
\<close>

definition lucky_candidate :: block where
  "lucky_candidate =
     Block_new sha256_hex (IndexString ''1'') ''21/01/2018'' (amount 212375) None"

text \<open>The payload \<open>{amount: 6, memo: undefined}\<close>.\<close>

definition amount6_memo :: json where
  "amount6_memo = JObject [(''amount'', JNumber (js_int 6)), (''memo'', JUndefined)]"

text \<open>
  The demo chain after \<open>chain[1].data = {amount: 6, memo: undefined}\<close>.
\<close>

definition memo_chain :: blockchain where
  "memo_chain =
     \<lparr>chain_list = [createGenesisBlock sha256_hex, demo_block1\<lparr>data := amount6_memo\<rparr>, demo_block2],
      difficulty = 5\<rparr>"

text \<open>The demo chain after \<open>chain[1].data = {amount: 666}\<close>.\<close>

definition tampered_chain :: blockchain where
  "tampered_chain =
     \<lparr>chain_list = [createGenesisBlock sha256_hex, demo_block1\<lparr>data := amount 666\<rparr>, demo_block2],
      difficulty = 5\<rparr>"

text \<open>A new chain whose \<open>difficulty\<close> field has been set to \<open>d\<close>.\<close>

definition chain_at :: "nat \<Rightarrow> blockchain" where
  "chain_at d = (Blockchain_new sha256_hex)\<lparr>difficulty := d\<rparr>"

text \<open>
  The chain after the first candidate of the demo has been appended at difficulty 1, and
  the same chain after \<open>chain.addBlock(chain.chain[1])\<close>.
\<close>

definition mined_chain1 :: blockchain where
  "mined_chain1 = \<lparr>chain_list = [createGenesisBlock sha256_hex, demo_mined1], difficulty = 1\<rparr>"

definition held_chain1 :: blockchain where
  "held_chain1 =
     \<lparr>chain_list =
        [createGenesisBlock sha256_hex,
         demo_mined1\<lparr>previousHash := hash demo_mined1\<rparr>,
         demo_mined1\<lparr>previousHash := hash demo_mined1\<rparr>],
      difficulty = 1\<rparr>"

text \<open>
  Two construction steps with the same text: the first candidate of the demo, and
  \<open>new Block(1, "21/01/2018", {amount: 6, memo: undefined})\<close>.
\<close>

definition demo_step1 :: construction where
  "demo_step1 = (IndexString ''1'', ''21/01/2018'', amount 6)"

definition demo_step1_number :: construction where
  "demo_step1_number = (IndexNumber (js_int 1), ''21/01/2018'', amount6_memo)"

section \<open>Properties of the validation walk and of mining\<close>

lemma isChainValid_from_iff:
  "isChainValid_from H bs k \<longleftrightarrow>
     (\<forall>i. k \<le> i \<and> i < length bs \<longrightarrow>
        hash (bs ! i) = calculateHash H (bs ! i) \<and> previousHash (bs ! i) = hash (bs ! (i - 1)))"
proof (induction H bs k rule: isChainValid_from.induct)
  case (1 H bs k)
  show ?case
  proof (cases "k < length bs")
    case False
    then show ?thesis by (subst isChainValid_from.simps) auto
  next
    case inrange: True
    show ?thesis
    proof (cases "hash (bs ! k) = calculateHash H (bs ! k) \<and> previousHash (bs ! k) = hash (bs ! (k - 1))")
      case False
      with inrange show ?thesis by (subst isChainValid_from.simps) auto
    next
      case True
      then have "isChainValid_from H bs k = isChainValid_from H bs (k + 1)"
        using inrange by (subst isChainValid_from.simps) simp
      also have "\<dots> \<longleftrightarrow> (\<forall>i. k + 1 \<le> i \<and> i < length bs \<longrightarrow>
        hash (bs ! i) = calculateHash H (bs ! i) \<and> previousHash (bs ! i) = hash (bs ! (i - 1)))"
        using "1.IH" inrange True by simp
      also have "\<dots> \<longleftrightarrow> (\<forall>i. k \<le> i \<and> i < length bs \<longrightarrow>
        hash (bs ! i) = calculateHash H (bs ! i) \<and> previousHash (bs ! i) = hash (bs ! (i - 1)))"
        using True by (metis Suc_eq_plus1 Suc_leI le_neq_implies_less Suc_leD)
      finally show ?thesis .
    qed
  qed
qed

lemma isChainValid_iff:
  "isChainValid H c \<longleftrightarrow>
     (\<forall>i. 1 \<le> i \<and> i < length (chain_list c) \<longrightarrow>
        hash (chain_list c ! i) = calculateHash H (chain_list c ! i) \<and>
        previousHash (chain_list c ! i) = hash (chain_list c ! (i - 1)))"
  unfolding isChainValid_def by (rule isChainValid_from_iff)

lemma isChainValid_single: "isChainValid H \<lparr>chain_list = [b], difficulty = d\<rparr>"
  by (simp add: isChainValid_iff)

lemma isChainValid_two:
  "isChainValid H \<lparr>chain_list = [b0, b1], difficulty = d\<rparr> \<longleftrightarrow>
     hash b1 = calculateHash H b1 \<and> previousHash b1 = hash b0"
  by (auto simp: isChainValid_def isChainValid_from.simps [of _ _ "Suc 0"]
      isChainValid_from.simps [of _ _ "Suc (Suc 0)"])

lemma isChainValid_three:
  "isChainValid H \<lparr>chain_list = [b0, b1, b2], difficulty = d\<rparr> \<longleftrightarrow>
     hash b1 = calculateHash H b1 \<and> previousHash b1 = hash b0 \<and>
     hash b2 = calculateHash H b2 \<and> previousHash b2 = hash b1"
  by (auto simp: isChainValid_def isChainValid_from.simps [of _ _ "Suc 0"]
      isChainValid_from.simps [of _ _ "Suc (Suc 0)"]
      isChainValid_from.simps [of _ _ "Suc (Suc (Suc 0))"])

lemma calculateHash_ignores_hash:
  "calculateHash H (b\<lparr>hash := h\<rparr>) = calculateHash H b"
  by (simp add: calculateHash_def hash_input_def)

lemma js_nat_js_int [simp]: "n \<le> 9007199254740992 \<Longrightarrow> js_nat (js_int n) = n"
  by (simp add: js_int_inverse)

lemma RangeError_condition:
  "(4294967295 < d + 1 \<or> max_string_length < d) \<longleftrightarrow> max_string_length < d"
  "(4294967294 < d \<or> max_string_length < d) \<longleftrightarrow> max_string_length < d"
  by (auto simp: max_string_length_def)

lemma mineBlock_target_met:
  "d \<le> max_string_length \<Longrightarrow> take d (hash b) = replicate d CHR ''0'' \<Longrightarrow>
   mineBlock H d b = Some (Inr b)"
  by (subst mineBlock.simps) (simp add: max_string_length_def)

lemma mineBlock_step:
  "d \<le> max_string_length \<Longrightarrow> take d (hash b) \<noteq> replicate d CHR ''0'' \<Longrightarrow>
   mineBlock H d b =
     mineBlock H d
       (b\<lparr>nonce := js_increment (nonce b),
          hash := calculateHash H (b\<lparr>nonce := js_increment (nonce b)\<rparr>)\<rparr>)"
  by (subst mineBlock.simps) (simp add: max_string_length_def)

lemma mineBlock_RangeError:
  "max_string_length < d \<Longrightarrow> mineBlock H d b = Some (Inl RangeError)"
  by (subst mineBlock.simps) (simp add: RangeError_condition)

lemma mined_from_step:
  "mined_from H d (b\<lparr>nonce := n, hash := calculateHash H (b\<lparr>nonce := n\<rparr>)\<rparr>) r \<Longrightarrow>
   mined_from H d b r"
  by (cases r) (auto simp: mined_from_def calculateHash_def hash_input_def)

lemma mineBlock_returns:
  assumes "mineBlock H d b = Some r"
  shows "mined_from H d b r"
proof (rule mineBlock.raw_induct [where P = mined_from, OF _ assms])
  fix mine H d b r
  assume IH: "\<And>H d b r. mine H d b = Some r \<Longrightarrow> mined_from H d b r"
    and body: "(if 4294967295 < d + 1 \<or> max_string_length < d then Some (Inl RangeError)
      else if take d (hash b) \<noteq> replicate d CHR ''0'' then
        mine H d
          (b\<lparr>nonce := js_increment (nonce b),
             hash := calculateHash H (b\<lparr>nonce := js_increment (nonce b)\<rparr>)\<rparr>)
      else Some (Inr b)) = Some r"
  show "mined_from H d b r"
  proof (cases "4294967295 < d + 1 \<or> max_string_length < d")
    case True
    with body have "r = Inl RangeError" by simp
    with True show ?thesis by (simp add: mined_from_def RangeError_condition)
  next
    case small: False
    show ?thesis
    proof (cases "take d (hash b) \<noteq> replicate d CHR ''0''")
      case False
      with small body have "r = Inr b" by simp
      with small False show ?thesis by (simp add: mined_from_def RangeError_condition)
    next
      case True
      with small body have "mine H d (b\<lparr>nonce := js_increment (nonce b),
             hash := calculateHash H (b\<lparr>nonce := js_increment (nonce b)\<rparr>)\<rparr>) = Some r"
        by simp
      from mined_from_step [OF IH [OF this]] show ?thesis .
    qed
  qed
qed

lemma mineBlock_recomputes:
  assumes "mineBlock H d b = Some (Inr m)"
    and "hash b = calculateHash H b \<or> take d (hash b) \<noteq> replicate d CHR ''0''"
  shows "hash m = calculateHash H m"
  using mineBlock_returns [OF assms(1)] assms(2) by (auto simp: mined_from_def)

lemma mineBlock_diverges:
  assumes "length (hash b) < d" and "\<And>s. length (H s) < d" and "d \<le> max_string_length"
  shows "mineBlock H d b = None"
proof (rule ccontr)
  assume "mineBlock H d b \<noteq> None"
  then obtain r where r: "mineBlock H d b = Some r" by auto
  from mineBlock_returns [OF r] assms(3) obtain m
    where m: "take d (hash m) = replicate d CHR ''0''"
      and "m = b \<or> hash m = calculateHash H m"
    by (cases r) (auto simp: mined_from_def)
  then have "length (hash m) < d"
    using assms(1,2) by (auto simp: calculateHash_def)
  moreover from m have "length (take d (hash m)) = d"
    by simp
  ultimately show False by simp
qed

lemma take_replicate_zero:
  assumes "take d h = replicate d CHR ''0''"
  shows "d \<le> length h \<and> (\<forall>i<d. h ! i = CHR ''0'')"
proof
  from assms have "length (take d h) = d" by simp
  then show "d \<le> length h" by simp
  show "\<forall>i<d. h ! i = CHR ''0''"
  proof (intro allI impI)
    fix i assume "i < d"
    then have "h ! i = take d h ! i" by simp
    also have "\<dots> = CHR ''0''" using assms \<open>i < d\<close> by simp
    finally show "h ! i = CHR ''0''" .
  qed
qed

subsection \<open>The digest has 64 characters\<close>

lemma length_round256: "length st = 8 \<Longrightarrow> length (round256 st kw) = 8"
proof -
  assume "length st = 8"
  then obtain a b c d e f g h where "st = [a, b, c, d, e, f, g, h]"
    by (auto simp: eval_nat_numeral length_Suc_conv)
  then show ?thesis by (cases kw) (simp add: Let_def)
qed

lemma length_foldl_round256: "length st = 8 \<Longrightarrow> length (foldl round256 st kws) = 8"
  by (induction kws arbitrary: st) (simp_all add: length_round256)

lemma length_compress: "length st = 8 \<Longrightarrow> length (compress st blk) = 8"
  by (simp add: compress_def length_foldl_round256)

lemma length_foldl_compress: "length st = 8 \<Longrightarrow> length (foldl compress st blks) = 8"
  by (induction blks arbitrary: st) (simp_all add: length_compress)

lemma length_sha256: "length (sha256 m) = 8"
  by (simp add: sha256_def Let_def length_foldl_compress H256_def first_primes_def)

lemma length_concat_hex32: "length (concat (map hex32 ws)) = 8 * length ws"
  by (induction ws) (simp_all add: hex32_def)

lemma length_sha256_hex: "length (sha256_hex s) = 64"
  by (simp add: sha256_hex_def length_concat_hex32 length_sha256)

subsection \<open>The constants of the digest, as numbers\<close>

lemma K256_table [code]:
  "K256 = [1116352408, 1899447441, 3049323471, 3921009573, 961987163, 1508970993,
           2453635748, 2870763221, 3624381080, 310598401, 607225278, 1426881987,
           1925078388, 2162078206, 2614888103, 3248222580, 3835390401, 4022224774,
           264347078, 604807628, 770255983, 1249150122, 1555081692, 1996064986,
           2554220882, 2821834349, 2952996808, 3210313671, 3336571891, 3584528711,
           113926993, 338241895, 666307205, 773529912, 1294757372, 1396182291,
           1695183700, 1986661051, 2177026350, 2456956037, 2730485921, 2820302411,
           3259730800, 3345764771, 3516065817, 3600352804, 4094571909, 275423344,
           430227734, 506948616, 659060556, 883997877, 958139571, 1322822218,
           1537002063, 1747873779, 1955562222, 2024104815, 2227730452, 2361852424,
           2428436474, 2756734187, 3204031479, 3329325298]"
  by code_simp

lemma H256_table [code]:
  "H256 = [1779033703, 3144134277, 1013904242, 2773480762,
           1359893119, 2600822924, 528734635, 1541459225]"
  by code_simp

subsection \<open>Digests of the concrete blocks\<close>

lemma sha_genesis_constructed:
  \<open>sha256_hex
     ''023/01/20180"Genesis block data"undefined'' =
     ''d82f1af7edb68b9b4bf3872669e086e5f14edc8b4920389ba754d7870a3053ba''\<close>
  by code_simp

lemma sha_genesis_recomputed:
  \<open>sha256_hex
     ''023/01/20180"Genesis block data"0'' =
     ''ccec360f034c9e09e2799d48648f0f7575bd75ff1ea003f29d8482ce325a4a56''\<close>
  by code_simp

lemma sha_candidate1_constructed:
  \<open>sha256_hex
     ''121/01/2018{"amount":6}undefined'' =
     ''ac0854d1ce56b6cfb68c8fea9aea38eadb45569adad0d4be552d08397cf03357''\<close>
  by code_simp

lemma sha_candidate1_nonce1:
  \<open>sha256_hex
     ''121/01/2018d82f1af7edb68b9b4bf3872669e086e5f14edc8b4920389ba754d7870a3053ba{"amount":6}1'' =
     ''07955b00f1b7b31749ef5b8a1a1a17a3f385abacd5abcc9305f08649cebb107d''\<close>
  by code_simp

lemma sha_lucky_constructed:
  \<open>sha256_hex
     ''121/01/2018{"amount":212375}undefined'' =
     ''00000fdfab5b1bc49fc90f21097e9588ad46f07e3b7f403d3e04664c5cd4d15f''\<close>
  by code_simp

lemma sha_lucky_recomputed:
  \<open>sha256_hex
     ''121/01/2018d82f1af7edb68b9b4bf3872669e086e5f14edc8b4920389ba754d7870a3053ba{"amount":212375}0'' =
     ''fcff126ce28f3c0a6783bf7523f43fdd4ebe35138ec4686a9138989ffcfabcbd''\<close>
  by code_simp

lemma sha_demo_block1:
  \<open>sha256_hex
     ''121/01/2018d82f1af7edb68b9b4bf3872669e086e5f14edc8b4920389ba754d7870a3053ba{"amount":6}666377'' =
     ''00000dd4f4fb87c5d5a3afa0a83f6b3f2fca9d635fea087f36ae6ef1755d30f2''\<close>
  by code_simp

lemma sha_demo_block2:
  \<open>sha256_hex
     ''222/01/201800000dd4f4fb87c5d5a3afa0a83f6b3f2fca9d635fea087f36ae6ef1755d30f2{"amount":2}2239187'' =
     ''00000f4185455c7e4e4d7ee382d9eb10bdecada5311a821099593e73f2eab399''\<close>
  by code_simp

lemma sha_demo_block1_666:
  \<open>sha256_hex
     ''121/01/2018d82f1af7edb68b9b4bf3872669e086e5f14edc8b4920389ba754d7870a3053ba{"amount":666}666377'' =
     ''3dd9537db4fcde28a8875e7cac772f320edb99d6f20f0e97a12393e8a710d0e4''\<close>
  by code_simp

lemmas input_simps = hash_input_def payload_text_def index_to_string_def nonce_to_string_def
  decimal.simps digit_char_def quote_def quote_char_def Let_def amount_def

lemma genesis_block:
  "createGenesisBlock sha256_hex =
     \<lparr>index = IndexNumber (js_int 0), timestamp = ''23/01/2018'',
      data = JString ''Genesis block data'',
      previousHash = ''0'',
      hash = ''d82f1af7edb68b9b4bf3872669e086e5f14edc8b4920389ba754d7870a3053ba'',
      nonce = NonceString0\<rparr>"
  by (simp add: createGenesisBlock_def Block_new_def calculateHash_def input_simps
      sha_genesis_constructed)

lemma genesis_recomputed:
  "calculateHash sha256_hex (createGenesisBlock sha256_hex) =
     ''ccec360f034c9e09e2799d48648f0f7575bd75ff1ea003f29d8482ce325a4a56''"
  by (simp add: genesis_block calculateHash_def input_simps sha_genesis_recomputed)

lemma demo_candidate1_block:
  "demo_candidate1 =
     \<lparr>index = IndexString ''1'', timestamp = ''21/01/2018'', data = amount 6,
      previousHash = [],
      hash = ''ac0854d1ce56b6cfb68c8fea9aea38eadb45569adad0d4be552d08397cf03357'',
      nonce = NonceString0\<rparr>"
  by (simp add: demo_candidate1_def Block_new_def calculateHash_def input_simps
      sha_candidate1_constructed)

lemma demo_mine1:
  "mineBlock sha256_hex 1
     (demo_candidate1
        \<lparr>previousHash := ''d82f1af7edb68b9b4bf3872669e086e5f14edc8b4920389ba754d7870a3053ba''\<rparr>) =
   Some (Inr demo_mined1)"
  apply (subst mineBlock.simps)
  apply (simp add: demo_candidate1_block js_increment_def calculateHash_def input_simps
      sha_candidate1_nonce1 max_string_length_def)
  apply (subst mineBlock.simps)
  apply (simp add: demo_mined1_def amount_def max_string_length_def)
  done

lemma lucky_candidate_block:
  "lucky_candidate =
     \<lparr>index = IndexString ''1'', timestamp = ''21/01/2018'', data = amount 212375,
      previousHash = [],
      hash = ''00000fdfab5b1bc49fc90f21097e9588ad46f07e3b7f403d3e04664c5cd4d15f'',
      nonce = NonceString0\<rparr>"
  by (simp add: lucky_candidate_def Block_new_def calculateHash_def input_simps
      sha_lucky_constructed)

lemma lucky_recomputed:
  "calculateHash sha256_hex
     (lucky_candidate
        \<lparr>previousHash := ''d82f1af7edb68b9b4bf3872669e086e5f14edc8b4920389ba754d7870a3053ba''\<rparr>) =
   ''fcff126ce28f3c0a6783bf7523f43fdd4ebe35138ec4686a9138989ffcfabcbd''"
  by (simp add: lucky_candidate_block calculateHash_def input_simps sha_lucky_recomputed)

lemma demo_block1_digest:
  "calculateHash sha256_hex demo_block1 =
     ''00000dd4f4fb87c5d5a3afa0a83f6b3f2fca9d635fea087f36ae6ef1755d30f2''"
  by (simp add: demo_block1_def calculateHash_def input_simps sha_demo_block1)

lemma demo_block2_digest:
  "calculateHash sha256_hex demo_block2 =
     ''00000f4185455c7e4e4d7ee382d9eb10bdecada5311a821099593e73f2eab399''"
  by (simp add: demo_block2_def calculateHash_def input_simps sha_demo_block2)

lemma demo_block1_digest_666:
  "calculateHash sha256_hex (demo_block1\<lparr>data := amount 666\<rparr>) =
     ''3dd9537db4fcde28a8875e7cac772f320edb99d6f20f0e97a12393e8a710d0e4''"
  by (simp add: demo_block1_def calculateHash_def input_simps sha_demo_block1_666)

lemma demo_block1_digest_memo:
  "calculateHash sha256_hex (demo_block1\<lparr>data := amount6_memo\<rparr>) =
     calculateHash sha256_hex demo_block1"
  by (simp add: demo_block1_def calculateHash_def hash_input_def payload_text_def amount_def
      amount6_memo_def)

lemma demo_chain_valid: "isChainValid sha256_hex demo_chain"
  unfolding demo_chain_def isChainValid_three demo_block1_digest demo_block2_digest
  by (simp add: demo_block1_def demo_block2_def genesis_block)

lemma Block_new_digest:
  "hash (Block_new H i t d p) = calculateHash H ((Block_new H i t d p)\<lparr>nonce := NonceUndefined\<rparr>)"
  by (simp add: Block_new_def Let_def calculateHash_def hash_input_def)

lemma getLatestBlock_last:
  "chain_list c \<noteq> [] \<Longrightarrow> getLatestBlock c = Some (last (chain_list c))"
  by (simp add: getLatestBlock_def last_conv_nth)

lemma addBlock_nonempty:
  "chain_list c \<noteq> [] \<Longrightarrow>
   addBlock H c b =
     (case mineBlock H (difficulty c) (b\<lparr>previousHash := hash (last (chain_list c))\<rparr>) of
        None \<Rightarrow> None
      | Some (Inl e) \<Rightarrow> Some (Inl e)
      | Some (Inr m) \<Rightarrow> Some (Inr (c\<lparr>chain_list := chain_list c @ [m]\<rparr>)))"
  by (simp add: addBlock_def getLatestBlock_last)

lemma demo_add1:
  "addBlock sha256_hex (chain_at 1) demo_candidate1 =
     Some (Inr ((chain_at 1)\<lparr>chain_list := chain_list (chain_at 1) @ [demo_mined1]\<rparr>))"
proof -
  have ne: "chain_list (chain_at 1) \<noteq> []"
    by (simp add: chain_at_def Blockchain_new_def)
  have tip: "hash (last (chain_list (chain_at 1))) =
      ''d82f1af7edb68b9b4bf3872669e086e5f14edc8b4920389ba754d7870a3053ba''"
    by (simp add: chain_at_def Blockchain_new_def genesis_block)
  have d: "difficulty (chain_at 1) = 1"
    by (simp add: chain_at_def)
  show ?thesis
    unfolding addBlock_nonempty [OF ne] tip d demo_mine1 by simp
qed

lemma replicate_five: "replicate 5 c = [c, c, c, c, c]"
  by (simp add: eval_nat_numeral)

lemma demo_chain_meets_target:
  "take 5 (hash demo_block1) = replicate 5 CHR ''0'' \<and>
   take 5 (hash demo_block2) = replicate 5 CHR ''0''"
  by (simp add: demo_block1_def demo_block2_def replicate_five)

lemma lucky_add:
  "addBlock sha256_hex (Blockchain_new sha256_hex) lucky_candidate =
     Some (Inr \<lparr>chain_list =
                  [createGenesisBlock sha256_hex,
                   lucky_candidate\<lparr>previousHash :=
                     ''d82f1af7edb68b9b4bf3872669e086e5f14edc8b4920389ba754d7870a3053ba''\<rparr>],
                difficulty = 5\<rparr>)"
proof -
  let ?b = "lucky_candidate\<lparr>previousHash :=
              ''d82f1af7edb68b9b4bf3872669e086e5f14edc8b4920389ba754d7870a3053ba''\<rparr>"
  have mine: "mineBlock sha256_hex 5 ?b = Some (Inr ?b)"
    by (rule mineBlock_target_met)
      (simp_all add: lucky_candidate_block replicate_five max_string_length_def)
  have ne: "chain_list (Blockchain_new sha256_hex) \<noteq> []"
    by (simp add: Blockchain_new_def)
  have tip: "hash (last (chain_list (Blockchain_new sha256_hex))) =
      ''d82f1af7edb68b9b4bf3872669e086e5f14edc8b4920389ba754d7870a3053ba''"
    by (simp add: Blockchain_new_def genesis_block)
  have d: "difficulty (Blockchain_new sha256_hex) = 5"
    by (simp add: Blockchain_new_def)
  show ?thesis
    unfolding addBlock_nonempty [OF ne] tip d mine by (simp add: Blockchain_new_def)
qed

lemma set_data_demo_memo: "set_data demo_chain 1 amount6_memo = Inr memo_chain"
  by (simp add: set_data_def demo_chain_def memo_chain_def)

lemma set_data_demo_666: "set_data demo_chain 1 (amount 666) = Inr tampered_chain"
  by (simp add: set_data_def demo_chain_def tampered_chain_def)

lemma memo_chain_valid: "isChainValid sha256_hex memo_chain"
  unfolding memo_chain_def isChainValid_three demo_block1_digest_memo demo_block1_digest
    demo_block2_digest
  by (simp add: demo_block1_def demo_block2_def genesis_block)

lemma memo_differs: "data demo_block1 \<noteq> amount6_memo"
  by (simp add: demo_block1_def amount_def amount6_memo_def)

lemma addBlock_preserves_validity:
  assumes valid: "isChainValid H c"
    and add: "addBlock H c b = Some (Inr c')"
    and fresh: "take (difficulty c) (hash b) \<noteq> replicate (difficulty c) CHR ''0''"
  shows "isChainValid H c'"
proof -
  from add have ne: "chain_list c \<noteq> []"
    by (auto simp: addBlock_def getLatestBlock_def split: if_splits)
  let ?b = "b\<lparr>previousHash := hash (last (chain_list c))\<rparr>"
  from add ne obtain m where mine: "mineBlock H (difficulty c) ?b = Some (Inr m)"
    and c': "c' = c\<lparr>chain_list := chain_list c @ [m]\<rparr>"
    by (auto simp: addBlock_nonempty split: option.splits sum.splits)
  from fresh have "take (difficulty c) (hash ?b) \<noteq> replicate (difficulty c) CHR ''0''"
    by simp
  with mine have self: "hash m = calculateHash H m"
    by (blast intro: mineBlock_recomputes)
  from mineBlock_returns [OF mine] have link: "previousHash m = hash (last (chain_list c))"
    by (simp add: mined_from_def)
  show ?thesis
    unfolding isChainValid_iff
  proof (intro allI impI)
    fix i assume i: "1 \<le> i \<and> i < length (chain_list c')"
    show "hash (chain_list c' ! i) = calculateHash H (chain_list c' ! i) \<and>
          previousHash (chain_list c' ! i) = hash (chain_list c' ! (i - 1))"
    proof (cases "i < length (chain_list c)")
      case True
      with i have "i - 1 < length (chain_list c)" by simp
      with True have "chain_list c' ! i = chain_list c ! i"
        and "chain_list c' ! (i - 1) = chain_list c ! (i - 1)"
        by (simp_all add: c' nth_append)
      moreover from valid i True
      have "hash (chain_list c ! i) = calculateHash H (chain_list c ! i) \<and>
            previousHash (chain_list c ! i) = hash (chain_list c ! (i - 1))"
        unfolding isChainValid_iff by blast
      ultimately show ?thesis by simp
    next
      case False
      with i have "i = length (chain_list c)" by (simp add: c')
      with ne self link show ?thesis
        by (simp add: c' nth_append last_conv_nth)
    qed
  qed
qed

subsection \<open>The digests depend on the text of the construction sequence only\<close>

lemma alike_refl: "alike b b"
  by (simp add: alike_def)

lemma alike_sym: "alike b b' \<Longrightarrow> alike b' b"
  by (simp add: alike_def)

lemma alike_step:
  "alike b b' \<Longrightarrow>
   alike (b\<lparr>nonce := js_increment (nonce b),
            hash := calculateHash H (b\<lparr>nonce := js_increment (nonce b)\<rparr>)\<rparr>)
         (b'\<lparr>nonce := js_increment (nonce b'),
             hash := calculateHash H (b'\<lparr>nonce := js_increment (nonce b')\<rparr>)\<rparr>)"
  by (simp add: alike_def calculateHash_def hash_input_def)

lemma mineBlock_alike_aux:
  assumes "mineBlock H d b = Some r"
  shows "\<forall>b'. alike b b' \<longrightarrow> (\<exists>r'. mineBlock H d b' = Some r' \<and> rel_sum (=) alike r r')"
    (is "?P H d b r")
proof (rule mineBlock.raw_induct [where P = ?P, OF _ assms])
  fix mine H d b r
  assume IH: "\<And>H d b r. mine H d b = Some r \<Longrightarrow> ?P H d b r"
    and body: "(if 4294967295 < d + 1 \<or> max_string_length < d then Some (Inl RangeError)
      else if take d (hash b) \<noteq> replicate d CHR ''0'' then
        mine H d
          (b\<lparr>nonce := js_increment (nonce b),
             hash := calculateHash H (b\<lparr>nonce := js_increment (nonce b)\<rparr>)\<rparr>)
      else Some (Inr b)) = Some r"
  show "?P H d b r"
  proof (intro allI impI)
    fix b' assume al: "alike b b'"
    then have h: "hash b' = hash b" by (simp add: alike_def)
    show "\<exists>r'. mineBlock H d b' = Some r' \<and> rel_sum (=) alike r r'"
    proof (cases "4294967295 < d + 1 \<or> max_string_length < d")
      case True
      with body have "r = Inl RangeError" by simp
      moreover from True have "mineBlock H d b' = Some (Inl RangeError)"
        by (simp add: mineBlock_RangeError RangeError_condition)
      ultimately show ?thesis by simp
    next
      case small: False
      show ?thesis
      proof (cases "take d (hash b) \<noteq> replicate d CHR ''0''")
        case False
        with small body have "r = Inr b" by simp
        moreover from False small h have "mineBlock H d b' = Some (Inr b')"
          by (simp add: mineBlock_target_met RangeError_condition)
        ultimately show ?thesis using al by simp
      next
        case True
        with small body have "mine H d (b\<lparr>nonce := js_increment (nonce b),
             hash := calculateHash H (b\<lparr>nonce := js_increment (nonce b)\<rparr>)\<rparr>) = Some r"
          by simp
        from IH [OF this] alike_step [OF al, of H]
        obtain r' where "mineBlock H d (b'\<lparr>nonce := js_increment (nonce b'),
             hash := calculateHash H (b'\<lparr>nonce := js_increment (nonce b')\<rparr>)\<rparr>) = Some r'"
          and "rel_sum (=) alike r r'"
          by blast
        moreover from True small h have "mineBlock H d b' =
            mineBlock H d (b'\<lparr>nonce := js_increment (nonce b'),
             hash := calculateHash H (b'\<lparr>nonce := js_increment (nonce b')\<rparr>)\<rparr>)"
          by (simp add: mineBlock_step RangeError_condition)
        ultimately show ?thesis by simp
      qed
    qed
  qed
qed

lemma mineBlock_alike:
  assumes "alike b b'"
  shows "rel_option (rel_sum (=) alike) (mineBlock H d b) (mineBlock H d b')"
proof (cases "mineBlock H d b")
  case None
  have "mineBlock H d b' = None"
  proof (rule ccontr)
    assume "mineBlock H d b' \<noteq> None"
    then obtain r' where "mineBlock H d b' = Some r'" by auto
    from mineBlock_alike_aux [OF this] alike_sym [OF assms] None show False by auto
  qed
  with None show ?thesis by simp
next
  case (Some r)
  from mineBlock_alike_aux [OF this] assms show ?thesis using Some by auto
qed

lemma chains_alike_digests: "chains_alike c c' \<Longrightarrow> digests c = digests c'"
  unfolding chains_alike_def digests_def
  by (auto simp: list_all2_conv_all_nth alike_def intro: nth_equalityI)

lemma Block_new_alike:
  "same_text (i, t, p) (i', t', p') \<Longrightarrow>
   alike ((Block_new H i t p None)\<lparr>previousHash := h\<rparr>) ((Block_new H i' t' p' None)\<lparr>previousHash := h\<rparr>)"
  by (simp add: same_text_def alike_def Block_new_def Let_def calculateHash_def hash_input_def)

lemma addBlock_alike:
  assumes "chains_alike c c'" and "same_text (i, t, p) (i', t', p')"
  shows "rel_option (rel_sum (=) chains_alike)
           (addBlock H c (Block_new H i t p None)) (addBlock H c' (Block_new H i' t' p' None))"
proof (cases "chain_list c = []")
  case True
  with assms(1) have "chain_list c' = []" by (simp add: chains_alike_def)
  with True show ?thesis by (simp add: addBlock_def getLatestBlock_def)
next
  case False
  with assms(1) have ne': "chain_list c' \<noteq> []" by (auto simp: chains_alike_def)
  from assms(1) False ne' have tip: "hash (last (chain_list c)) = hash (last (chain_list c'))"
    by (auto simp: chains_alike_def last_conv_nth list_all2_conv_all_nth alike_def)
  from assms(1) have d: "difficulty c' = difficulty c" by (simp add: chains_alike_def)
  let ?b = "(Block_new H i t p None)\<lparr>previousHash := hash (last (chain_list c))\<rparr>"
  let ?b' = "(Block_new H i' t' p' None)\<lparr>previousHash := hash (last (chain_list c))\<rparr>"
  have "rel_option (rel_sum (=) alike) (mineBlock H (difficulty c) ?b) (mineBlock H (difficulty c) ?b')"
    by (rule mineBlock_alike) (rule Block_new_alike [OF assms(2)])
  then show ?thesis
    using assms(1)
    by (auto simp: addBlock_nonempty False ne' tip [symmetric] d chains_alike_def
        option.rel_sel rel_sum.simps list_all2_appendI
        split: option.splits sum.splits)
qed

lemma add_all_alike:
  assumes "list_all2 same_text steps steps'" and "chains_alike c c'"
  shows "rel_option (rel_sum (=) chains_alike) (add_all H c steps) (add_all H c' steps')"
  using assms
proof (induction steps steps' arbitrary: c c' rule: list_all2_induct)
  case Nil
  then show ?case by simp
next
  case (Cons s ss s' ss')
  obtain i t p where s: "s = (i, t, p)" by (cases s) auto
  obtain i' t' p' where s': "s' = (i', t', p')" by (cases s') auto
  from addBlock_alike [OF Cons.prems, of i t p i' t' p' H] Cons.hyps(1)
  have "rel_option (rel_sum (=) chains_alike)
           (addBlock H c (Block_new H i t p None)) (addBlock H c' (Block_new H i' t' p' None))"
    by (simp add: s s')
  then show ?case
  proof (cases rule: option.rel_cases)
    case None
    then show ?thesis by (simp add: s s')
  next
    case (Some r r')
    show ?thesis
    proof (cases r)
      case (Inl e)
      with Some have "r' = Inl e" by (cases r') simp_all
      with Some Inl show ?thesis by (simp add: s s')
    next
      case (Inr c1)
      with Some obtain c1' where "r' = Inr c1'" "chains_alike c1 c1'"
        by (cases r') simp_all
      with Some Inr Cons.IH [of c1 c1'] show ?thesis by (simp add: s s')
    qed
  qed
qed

lemma digest_sequence_same_text:
  assumes "list_all2 same_text steps steps'"
  shows "digest_sequence H d steps = digest_sequence H d steps'"
proof -
  have "chains_alike ((Blockchain_new H)\<lparr>difficulty := d\<rparr>) ((Blockchain_new H)\<lparr>difficulty := d\<rparr>)"
    by (simp add: chains_alike_def list_all2_refl alike_refl)
  from add_all_alike [OF assms this, of H] show ?thesis
    unfolding digest_sequence_def build_chain_def
    by (auto simp: option.rel_sel rel_sum.simps chains_alike_digests split: option.splits sum.splits)
qed

subsection \<open>What tampering with a payload does to the walk\<close>

lemma hash_input_payload:
  "hash_input (b\<lparr>data := p\<rparr>) = hash_input b \<longleftrightarrow> payload_text p = payload_text (data b)"
  by (simp add: hash_input_def)

lemma set_data_valid_iff:
  assumes "isChainValid H c" and "1 \<le> i" and "i < length (chain_list c)"
    and "set_data c i p = Inr c'"
  shows "isChainValid H c' \<longleftrightarrow>
           calculateHash H ((chain_list c ! i)\<lparr>data := p\<rparr>) = hash (chain_list c ! i)"
proof -
  let ?bs = "chain_list c"
  let ?b = "(?bs ! i)\<lparr>data := p\<rparr>"
  from assms(3,4) have c': "chain_list c' = ?bs[i := ?b]"
    by (auto simp: set_data_def)
  have len: "length (chain_list c') = length ?bs"
    by (simp add: c')
  have hash_same: "hash (chain_list c' ! j) = hash (?bs ! j)" if "j < length ?bs" for j
    using that by (cases "j = i") (simp_all add: c')
  have prev_same: "previousHash (chain_list c' ! j) = previousHash (?bs ! j)"
    if "j < length ?bs" for j
    using that by (cases "j = i") (simp_all add: c')
  have calc_other: "calculateHash H (chain_list c' ! j) = calculateHash H (?bs ! j)"
    if "j < length ?bs" "j \<noteq> i" for j
    using that by (simp add: c' nth_list_update)
  have calc_i: "calculateHash H (chain_list c' ! i) = calculateHash H ?b"
    using assms(3) by (simp add: c')
  from assms(1) have valid: "hash (?bs ! j) = calculateHash H (?bs ! j) \<and>
      previousHash (?bs ! j) = hash (?bs ! (j - 1))"
    if "1 \<le> j" "j < length ?bs" for j
    using that unfolding isChainValid_iff by blast
  show ?thesis
  proof
    assume "isChainValid H c'"
    with assms(2,3) len
    have "hash (chain_list c' ! i) = calculateHash H (chain_list c' ! i)"
      unfolding isChainValid_iff by simp
    with assms(3) show "calculateHash H ?b = hash (?bs ! i)"
      by (simp add: hash_same calc_i)
  next
    assume eq: "calculateHash H ?b = hash (?bs ! i)"
    show "isChainValid H c'"
      unfolding isChainValid_iff
    proof (intro allI impI)
      fix j assume "1 \<le> j \<and> j < length (chain_list c')"
      then have j: "1 \<le> j" "j < length ?bs" "j - 1 < length ?bs"
        by (auto simp: len)
      have "hash (chain_list c' ! j) = calculateHash H (chain_list c' ! j)"
      proof (cases "j = i")
        case True
        with eq j show ?thesis by (simp add: hash_same calc_i)
      next
        case False
        with j valid show ?thesis by (simp add: hash_same calc_other)
      qed
      moreover have "previousHash (chain_list c' ! j) = hash (chain_list c' ! (j - 1))"
        using j valid by (simp add: hash_same prev_same)
      ultimately show "hash (chain_list c' ! j) = calculateHash H (chain_list c' ! j) \<and>
          previousHash (chain_list c' ! j) = hash (chain_list c' ! (j - 1))"
        by simp
    qed
  qed
qed

lemma recalculated_link_fails:
  assumes "isChainValid H c" and "3 \<le> length (chain_list c)"
    and "set_data c 1 p = Inr c1" and "recalculate_hash H c1 1 = Inr c2"
    and "hash (chain_list c2 ! 1) \<noteq> hash (chain_list c ! 1)"
  shows "\<not> isChainValid H c2
       \<and> hash (chain_list c2 ! 1) = calculateHash H (chain_list c2 ! 1)
       \<and> previousHash (chain_list c2 ! 2) \<noteq> hash (chain_list c2 ! 1)"
proof -
  let ?bs = "chain_list c"
  let ?b = "(?bs ! 1)\<lparr>data := p\<rparr>"
  from assms(2,3) have c1: "chain_list c1 = ?bs[1 := ?b]"
    by (auto simp: set_data_def split: if_splits)
  with assms(2,4) have c2: "chain_list c2 = ?bs[1 := ?b\<lparr>hash := calculateHash H ?b\<rparr>]"
    by (auto simp: recalculate_hash_def split: if_splits)
  from assms(2) have self: "hash (chain_list c2 ! 1) = calculateHash H (chain_list c2 ! 1)"
    by (simp add: c2 calculateHash_ignores_hash)
  from assms(2) have "chain_list c2 ! 2 = ?bs ! 2"
    by (simp add: c2)
  moreover have "previousHash (?bs ! 2) = hash (?bs ! 1)"
  proof -
    from assms(2) have "(1::nat) \<le> 2 \<and> 2 < length ?bs" by simp
    with assms(1) have "previousHash (?bs ! 2) = hash (?bs ! (2 - 1))"
      unfolding isChainValid_iff by blast
    then show ?thesis by simp
  qed
  ultimately have link: "previousHash (chain_list c2 ! 2) \<noteq> hash (chain_list c2 ! 1)"
    using assms(5) by simp
  from assms(2) have "(1::nat) \<le> 2 \<and> 2 < length (chain_list c2)"
    by (simp add: c2)
  moreover from link have "previousHash (chain_list c2 ! 2) \<noteq> hash (chain_list c2 ! (2 - 1))"
    by simp
  ultimately have "\<not> isChainValid H c2"
    unfolding isChainValid_iff by blast
  with self link show ?thesis by blast
qed

subsection \<open>The shape of a chain that has been built\<close>

lemma genesis_digest_text:
  \<open>hash (createGenesisBlock H) = H ''023/01/20180"Genesis block data"undefined''\<close>
  by (simp add: createGenesisBlock_def Block_new_def calculateHash_def hash_input_def
      payload_text_def index_to_string_def nonce_to_string_def decimal.simps digit_char_def
      quote_def quote_char_def Let_def)

lemma addBlock_returns:
  assumes "addBlock H c b = Some (Inr c')"
  shows "difficulty c' = difficulty c \<and>
         (\<exists>m. chain_list c' = chain_list c @ [m] \<and>
              take (difficulty c) (hash m) = replicate (difficulty c) CHR ''0'')"
proof -
  from assms have ne: "chain_list c \<noteq> []"
    by (auto simp: addBlock_def getLatestBlock_def split: if_splits)
  with assms obtain m
    where mine: "mineBlock H (difficulty c) (b\<lparr>previousHash := hash (last (chain_list c))\<rparr>)
                   = Some (Inr m)"
      and c': "c' = c\<lparr>chain_list := chain_list c @ [m]\<rparr>"
    by (auto simp: addBlock_nonempty split: option.splits sum.splits)
  from mineBlock_returns [OF mine]
  have "take (difficulty c) (hash m) = replicate (difficulty c) CHR ''0''"
    by (simp add: mined_from_def)
  with c' show ?thesis by simp
qed

lemma add_all_returns:
  assumes "add_all H c steps = Some (Inr c')"
  shows "difficulty c' = difficulty c \<and>
         (\<exists>ms. chain_list c' = chain_list c @ ms \<and> length ms = length steps \<and>
               (\<forall>m \<in> set ms. take (difficulty c) (hash m) = replicate (difficulty c) CHR ''0''))"
  using assms
proof (induction steps arbitrary: c)
  case Nil
  then show ?case by simp
next
  case (Cons s steps)
  obtain i t p where s: "s = (i, t, p)" by (cases s) auto
  from Cons.prems obtain c1
    where add: "addBlock H c (Block_new H i t p None) = Some (Inr c1)"
      and rest: "add_all H c1 steps = Some (Inr c')"
    by (auto simp: s split: option.splits sum.splits)
  from addBlock_returns [OF add] obtain m
    where d1: "difficulty c1 = difficulty c" and c1: "chain_list c1 = chain_list c @ [m]"
      and m: "take (difficulty c) (hash m) = replicate (difficulty c) CHR ''0''"
    by blast
  from Cons.IH [OF rest] d1 obtain ms
    where d': "difficulty c' = difficulty c" and c': "chain_list c' = chain_list c1 @ ms"
      and len: "length ms = length steps"
      and ms: "\<forall>m \<in> set ms. take (difficulty c) (hash m) = replicate (difficulty c) CHR ''0''"
    by auto
  have "chain_list c' = chain_list c @ (m # ms)"
    by (simp add: c' c1)
  moreover have "length (m # ms) = length (s # steps)"
    by (simp add: len)
  moreover have "\<forall>x \<in> set (m # ms). take (difficulty c) (hash x) = replicate (difficulty c) CHR ''0''"
    using m ms by simp
  ultimately show ?case using d' by blast
qed

lemma digest_sequence_shape:
  assumes "digest_sequence H d steps = Some (Inr ds)"
  shows "length ds = Suc (length steps) \<and> ds ! 0 = hash (createGenesisBlock H) \<and>
         (\<forall>k. 1 \<le> k \<and> k < length ds \<longrightarrow> take d (ds ! k) = replicate d CHR ''0'')"
proof -
  let ?c0 = "(Blockchain_new H)\<lparr>difficulty := d\<rparr>"
  from assms obtain c where build: "add_all H ?c0 steps = Some (Inr c)" and ds: "ds = digests c"
    by (auto simp: digest_sequence_def build_chain_def split: option.splits sum.splits)
  from add_all_returns [OF build] obtain ms
    where c: "chain_list c = createGenesisBlock H # ms" and len: "length ms = length steps"
      and ms: "\<forall>m \<in> set ms. take d (hash m) = replicate d CHR ''0''"
    by (auto simp: Blockchain_new_def)
  have "take d (ds ! k) = replicate d CHR ''0''" if "1 \<le> k" "k < length ds" for k
  proof -
    from that obtain j where k: "k = Suc j" and j: "j < length ms"
      by (cases k) (auto simp: ds digests_def c)
    then have "ds ! k = hash (ms ! j)"
      by (simp add: ds digests_def c)
    with ms j show ?thesis by simp
  qed
  then have "\<forall>k. 1 \<le> k \<and> k < length ds \<longrightarrow> take d (ds ! k) = replicate d CHR ''0''"
    by blast
  moreover have "length ds = Suc (length steps)"
    by (simp add: ds digests_def c len)
  moreover have "ds ! 0 = hash (createGenesisBlock H)"
    by (simp add: ds digests_def c)
  ultimately show ?thesis by blast
qed

subsection \<open>A candidate that the chain already holds\<close>

lemma mined_chain1_valid: "isChainValid sha256_hex mined_chain1"
proof -
  have "calculateHash sha256_hex demo_mined1 = hash demo_mined1"
    by (simp add: demo_mined1_def calculateHash_def input_simps sha_candidate1_nonce1)
  then show ?thesis
    unfolding mined_chain1_def isChainValid_two
    by (simp add: demo_mined1_def genesis_block)
qed

lemma addBlock_held_rewrites:
  "isChainValid sha256_hex mined_chain1
   \<and> addBlock_held sha256_hex mined_chain1 1 = Some (Inr held_chain1)
   \<and> chain_list held_chain1 ! 1 \<noteq> chain_list mined_chain1 ! 1
   \<and> \<not> isChainValid sha256_hex held_chain1"
proof -
  let ?m = "demo_mined1\<lparr>previousHash := hash demo_mined1\<rparr>"
  have mine: "mineBlock sha256_hex 1 ?m = Some (Inr ?m)"
    by (rule mineBlock_target_met) (simp_all add: demo_mined1_def max_string_length_def)
  have len: "1 < length (chain_list mined_chain1)"
    by (simp add: mined_chain1_def)
  have latest: "getLatestBlock mined_chain1 = Some demo_mined1"
    by (simp add: mined_chain1_def getLatestBlock_def)
  have at1: "chain_list mined_chain1 ! 1 = demo_mined1"
    by (simp add: mined_chain1_def)
  have d: "difficulty mined_chain1 = 1"
    by (simp add: mined_chain1_def)
  have "addBlock_held sha256_hex mined_chain1 1 = Some (Inr held_chain1)"
    unfolding addBlock_held_def latest at1 d option.case mine sum.case
    using len by (simp add: mined_chain1_def held_chain1_def)
  moreover have "chain_list held_chain1 ! 1 \<noteq> chain_list mined_chain1 ! 1"
    by (simp add: held_chain1_def mined_chain1_def demo_mined1_def)
  moreover have "previousHash (chain_list held_chain1 ! 1) \<noteq> hash (chain_list held_chain1 ! (1 - 1))"
    by (simp add: held_chain1_def demo_mined1_def genesis_block)
  then have "\<not> isChainValid sha256_hex held_chain1"
    unfolding isChainValid_iff
    by (metis One_nat_def le_refl length_Cons lessI held_chain1_def blockchain.select_convs(1) Suc_less_eq zero_less_Suc)
  ultimately show ?thesis using mined_chain1_valid by blast
qed

section \<open>The claims\<close>

text \<open>
  C1. Claimed: right after construction and right after \<open>mineBlock\<close> returns, the stored
  digest equals the digest recomputed from the block's fields, and a new block has nonce 0
  with its digest computed over that nonce. The constructor computes the digest before it
  assigns \<open>nonce\<close>: for the genesis block \<open>new Block(0, "23/01/2018", "Genesis block data", "0")\<close>
  the stored digest is the one of the text ending in \<open>undefined\<close>, the recomputed one that
  of the text ending in \<open>0\<close>, and the two differ.
\<close>

theorem constructor_digest_is_stale:
  "hash (createGenesisBlock sha256_hex) =
     ''d82f1af7edb68b9b4bf3872669e086e5f14edc8b4920389ba754d7870a3053ba''
   \<and> calculateHash sha256_hex (createGenesisBlock sha256_hex) =
     ''ccec360f034c9e09e2799d48648f0f7575bd75ff1ea003f29d8482ce325a4a56''
   \<and> hash (createGenesisBlock sha256_hex) \<noteq> calculateHash sha256_hex (createGenesisBlock sha256_hex)
   \<and> nonce (createGenesisBlock sha256_hex) = NonceString0"
  unfolding genesis_recomputed by (simp add: genesis_block)

text \<open>
  C2. \<open>isChainValid\<close> walks the blocks from position 1 to the end and returns true exactly
  when each of them has (a) a stored digest equal to the digest recomputed from its own
  fields and (b) a \<open>previousHash\<close> equal to the stored digest of the block before it. Block
  0 is read only as the predecessor of block 1.
\<close>

theorem isChainValid_walk:
  "isChainValid H c \<longleftrightarrow>
     (\<forall>i. 1 \<le> i \<and> i < length (chain_list c) \<longrightarrow>
        hash (chain_list c ! i) = calculateHash H (chain_list c ! i) \<and>
        previousHash (chain_list c ! i) = hash (chain_list c ! (i - 1)))"
  by (rule isChainValid_iff)

theorem isChainValid_walk_witness:
  "isChainValid sha256_hex demo_chain
   \<and> (1::nat) \<le> 2 \<and> 2 < length (chain_list demo_chain)
   \<and> hash (chain_list demo_chain ! 2) = calculateHash sha256_hex (chain_list demo_chain ! 2)
   \<and> previousHash (chain_list demo_chain ! 2) = hash (chain_list demo_chain ! (2 - 1))"
proof -
  have len: "(1::nat) \<le> 2 \<and> 2 < length (chain_list demo_chain)"
    by (simp add: demo_chain_def)
  with demo_chain_valid isChainValid_walk [of sha256_hex demo_chain]
  have "hash (chain_list demo_chain ! 2) = calculateHash sha256_hex (chain_list demo_chain ! 2) \<and>
        previousHash (chain_list demo_chain ! 2) = hash (chain_list demo_chain ! (2 - 1))"
    by blast
  with len demo_chain_valid show ?thesis by blast
qed

text \<open>
  C3. After \<open>mineBlock(d)\<close> returns, the first \<open>d\<close> characters of the block's digest are
  all \<open>0\<close>; and \<open>mineBlock(0)\<close> returns at once, the block (its nonce too) unchanged.
\<close>

theorem mineBlock_postcondition:
  "(mineBlock H d b = Some (Inr m) \<longrightarrow> d \<le> length (hash m) \<and> (\<forall>i<d. hash m ! i = CHR ''0''))
   \<and> mineBlock H 0 b = Some (Inr b)"
proof
  show "mineBlock H d b = Some (Inr m) \<longrightarrow> d \<le> length (hash m) \<and> (\<forall>i<d. hash m ! i = CHR ''0'')"
  proof
    assume "mineBlock H d b = Some (Inr m)"
    from mineBlock_returns [OF this] have "take d (hash m) = replicate d CHR ''0''"
      by (simp add: mined_from_def)
    then show "d \<le> length (hash m) \<and> (\<forall>i<d. hash m ! i = CHR ''0'')"
      by (rule take_replicate_zero)
  qed
  show "mineBlock H 0 b = Some (Inr b)"
    by (rule mineBlock_target_met) simp_all
qed

theorem mineBlock_postcondition_witness:
  "mineBlock sha256_hex 1
     (demo_candidate1
        \<lparr>previousHash := ''d82f1af7edb68b9b4bf3872669e086e5f14edc8b4920389ba754d7870a3053ba''\<rparr>) =
     Some (Inr demo_mined1)
   \<and> nonce demo_mined1 = NonceNumber (js_int 1)
   \<and> 1 \<le> length (hash demo_mined1) \<and> hash demo_mined1 ! 0 = CHR ''0''"
proof -
  let ?b = "demo_candidate1
        \<lparr>previousHash := ''d82f1af7edb68b9b4bf3872669e086e5f14edc8b4920389ba754d7870a3053ba''\<rparr>"
  from mineBlock_postcondition [of sha256_hex 1 ?b demo_mined1] demo_mine1
  have "1 \<le> length (hash demo_mined1) \<and> (\<forall>i<1. hash demo_mined1 ! i = CHR ''0'')"
    by blast
  then have "1 \<le> length (hash demo_mined1) \<and> hash demo_mined1 ! 0 = CHR ''0''"
    by simp
  moreover have "nonce demo_mined1 = NonceNumber (js_int 1)"
    by (simp add: demo_mined1_def)
  ultimately show ?thesis using demo_mine1 by blast
qed

text \<open>
  C4, as amended. For a chain that is not empty and a candidate that is an object of its
  own (not one the chain already holds), \<open>addBlock\<close> does these steps in order: it sets
  the candidate's \<open>previousHash\<close> to the stored digest of the last block, runs
  \<open>mineBlock\<close> on it at the chain's difficulty and, when that returns a block, pushes this
  block at the end of the array, everything else unchanged; the pushed block has the
  candidate's index, timestamp and payload and a digest that meets the target.
  \<open>addBlock\<close> never looks at the index and has no check of its own: it returns exactly
  when the nonce search returns, and it raises exactly when the difficulty is above the
  longest string the engine allows, a \<open>RangeError\<close>.
\<close>

theorem addBlock_steps:
  assumes "chain_list c \<noteq> []"
  shows "(addBlock H c b = None \<longleftrightarrow>
            mineBlock H (difficulty c) (b\<lparr>previousHash := hash (last (chain_list c))\<rparr>) = None)
       \<and> (\<forall>c'. addBlock H c b = Some (Inr c') \<longrightarrow>
            (\<exists>m. mineBlock H (difficulty c) (b\<lparr>previousHash := hash (last (chain_list c))\<rparr>)
                    = Some (Inr m)
                \<and> c' = c\<lparr>chain_list := chain_list c @ [m]\<rparr>
                \<and> previousHash m = hash (last (chain_list c))
                \<and> index m = index b \<and> timestamp m = timestamp b \<and> data m = data b
                \<and> take (difficulty c) (hash m) = replicate (difficulty c) CHR ''0''))
       \<and> (\<forall>m. mineBlock H (difficulty c) (b\<lparr>previousHash := hash (last (chain_list c))\<rparr>)
                = Some (Inr m) \<longrightarrow>
              addBlock H c b = Some (Inr (c\<lparr>chain_list := chain_list c @ [m]\<rparr>)))
       \<and> (\<forall>e. addBlock H c b = Some (Inl e) \<longleftrightarrow>
              e = RangeError \<and> max_string_length < difficulty c)"
proof (intro conjI allI impI)
  let ?b = "b\<lparr>previousHash := hash (last (chain_list c))\<rparr>"
  show "addBlock H c b = None \<longleftrightarrow> mineBlock H (difficulty c) ?b = None"
    using assms by (simp add: addBlock_nonempty split: option.splits sum.splits)
  show "\<exists>m. mineBlock H (difficulty c) ?b = Some (Inr m)
          \<and> c' = c\<lparr>chain_list := chain_list c @ [m]\<rparr>
          \<and> previousHash m = hash (last (chain_list c))
          \<and> index m = index b \<and> timestamp m = timestamp b \<and> data m = data b
          \<and> take (difficulty c) (hash m) = replicate (difficulty c) CHR ''0''"
    if "addBlock H c b = Some (Inr c')" for c'
  proof -
    from that assms obtain m where mine: "mineBlock H (difficulty c) ?b = Some (Inr m)"
      and c': "c' = c\<lparr>chain_list := chain_list c @ [m]\<rparr>"
      by (auto simp: addBlock_nonempty split: option.splits sum.splits)
    from mineBlock_returns [OF mine] have "previousHash m = hash (last (chain_list c))"
      "index m = index b" "timestamp m = timestamp b" "data m = data b"
      "take (difficulty c) (hash m) = replicate (difficulty c) CHR ''0''"
      by (simp_all add: mined_from_def)
    with mine c' show ?thesis by blast
  qed
  show "addBlock H c b = Some (Inr (c\<lparr>chain_list := chain_list c @ [m]\<rparr>))"
    if "mineBlock H (difficulty c) ?b = Some (Inr m)" for m
    using that assms by (simp add: addBlock_nonempty)
  show "addBlock H c b = Some (Inl e) \<longleftrightarrow> e = RangeError \<and> max_string_length < difficulty c"
    for e
  proof
    assume "addBlock H c b = Some (Inl e)"
    with assms have "mineBlock H (difficulty c) ?b = Some (Inl e)"
      by (auto simp: addBlock_nonempty split: option.splits sum.splits)
    from mineBlock_returns [OF this] show "e = RangeError \<and> max_string_length < difficulty c"
      by (simp add: mined_from_def)
  next
    assume "e = RangeError \<and> max_string_length < difficulty c"
    with assms show "addBlock H c b = Some (Inl e)"
      by (simp add: addBlock_nonempty mineBlock_RangeError)
  qed
qed

theorem addBlock_steps_witness:
  "chain_list (chain_at 1) \<noteq> []
   \<and> addBlock sha256_hex (chain_at 1) demo_candidate1 =
       Some (Inr ((chain_at 1)\<lparr>chain_list := chain_list (chain_at 1) @ [demo_mined1]\<rparr>))
   \<and> mineBlock sha256_hex (difficulty (chain_at 1))
        (demo_candidate1\<lparr>previousHash := hash (last (chain_list (chain_at 1)))\<rparr>) =
       Some (Inr demo_mined1)
   \<and> previousHash demo_mined1 = hash (last (chain_list (chain_at 1)))
   \<and> index demo_mined1 = index demo_candidate1"
proof -
  have ne: "chain_list (chain_at 1) \<noteq> []"
    by (simp add: chain_at_def Blockchain_new_def)
  let ?c' = "(chain_at 1)\<lparr>chain_list := chain_list (chain_at 1) @ [demo_mined1]\<rparr>"
  from addBlock_steps [OF ne, of sha256_hex demo_candidate1] demo_add1
  obtain m where m: "mineBlock sha256_hex (difficulty (chain_at 1))
        (demo_candidate1\<lparr>previousHash := hash (last (chain_list (chain_at 1)))\<rparr>) = Some (Inr m)"
    and c': "?c' = (chain_at 1)\<lparr>chain_list := chain_list (chain_at 1) @ [m]\<rparr>"
    and rest: "previousHash m = hash (last (chain_list (chain_at 1)))"
      "index m = index demo_candidate1"
    by blast
  from c' have "chain_list ?c' = chain_list ((chain_at 1)\<lparr>chain_list := chain_list (chain_at 1) @ [m]\<rparr>)"
    by (rule arg_cong)
  then have "m = demo_mined1" by simp
  with ne demo_add1 m rest show ?thesis by blast
qed

text \<open>
  C4 as stated says that \<open>addBlock\<close> always succeeds. On a new chain whose difficulty has
  been set to 65, appending the first candidate of the demo never returns: the digest the
  candidate is constructed with and every digest the search computes has 64 characters,
  and none of them starts with 65 zeros.
\<close>

theorem addBlock_always_succeeds_counterexample:
  "addBlock sha256_hex (chain_at 65) demo_candidate1 = None"
proof -
  have ne: "chain_list (chain_at 65) \<noteq> []"
    by (simp add: chain_at_def Blockchain_new_def)
  have d: "difficulty (chain_at 65) = 65"
    by (simp add: chain_at_def)
  have "mineBlock sha256_hex 65
          (demo_candidate1\<lparr>previousHash := hash (last (chain_list (chain_at 65)))\<rparr>) = None"
    by (rule mineBlock_diverges)
      (simp_all add: length_sha256_hex demo_candidate1_block max_string_length_def)
  then show ?thesis
    unfolding addBlock_nonempty [OF ne] d by simp
qed

text \<open>
  C5, as amended. In a valid chain, assigning to a block other than the genesis block a
  new payload whose serialization differs from that of the old one, no digest being
  recomputed, makes \<open>isChainValid\<close> return false, unless the digest function gives the
  block's old and new text the same digest; a new payload with the same serialization
  leaves it true. On the demo chain (genesis, block \<open>"1"\<close> with \<open>{amount: 6}\<close>, block
  \<open>"2"\<close> with \<open>{amount: 2}\<close>), which is valid, \<open>chain[1].data = {amount: 666}\<close> makes it
  return false.
\<close>

theorem payload_tamper_detected:
  assumes "isChainValid H c" and "1 \<le> i" and "i < length (chain_list c)"
    and "set_data c i p = Inr c'"
    and "inj_on H {hash_input (chain_list c ! i), hash_input ((chain_list c ! i)\<lparr>data := p\<rparr>)}"
  shows "isChainValid H c' \<longleftrightarrow> payload_text p = payload_text (data (chain_list c ! i))"
proof -
  let ?b = "chain_list c ! i"
  from assms(1,2,3) have stored: "hash ?b = calculateHash H ?b"
    unfolding isChainValid_iff by blast
  have "isChainValid H c' \<longleftrightarrow> calculateHash H (?b\<lparr>data := p\<rparr>) = hash ?b"
    by (rule set_data_valid_iff [OF assms(1,2,3,4)])
  also have "\<dots> \<longleftrightarrow> H (hash_input (?b\<lparr>data := p\<rparr>)) = H (hash_input ?b)"
    by (simp add: stored calculateHash_def)
  also have "\<dots> \<longleftrightarrow> hash_input (?b\<lparr>data := p\<rparr>) = hash_input ?b"
    using assms(5) by (auto simp: inj_on_def)
  also have "\<dots> \<longleftrightarrow> payload_text p = payload_text (data ?b)"
    by (rule hash_input_payload)
  finally show ?thesis .
qed

theorem payload_tamper_detected_witness:
  "isChainValid sha256_hex demo_chain
   \<and> (1::nat) \<le> 1 \<and> 1 < length (chain_list demo_chain)
   \<and> set_data demo_chain 1 (amount 666) = Inr tampered_chain
   \<and> inj_on sha256_hex {hash_input (chain_list demo_chain ! 1),
         hash_input ((chain_list demo_chain ! 1)\<lparr>data := amount 666\<rparr>)}
   \<and> payload_text (amount 666) \<noteq> payload_text (data (chain_list demo_chain ! 1))
   \<and> \<not> isChainValid sha256_hex tampered_chain"
proof -
  have len: "(1::nat) \<le> 1" "1 < length (chain_list demo_chain)"
    by (simp_all add: demo_chain_def)
  have b1: "chain_list demo_chain ! 1 = demo_block1"
    by (simp add: demo_chain_def)
  have "sha256_hex (hash_input demo_block1) \<noteq>
        sha256_hex (hash_input (demo_block1\<lparr>data := amount 666\<rparr>))"
    using demo_block1_digest demo_block1_digest_666 by (simp add: calculateHash_def)
  then have inj: "inj_on sha256_hex {hash_input (chain_list demo_chain ! 1),
         hash_input ((chain_list demo_chain ! 1)\<lparr>data := amount 666\<rparr>)}"
    unfolding b1 by (auto simp: inj_on_def)
  have differs: "payload_text (amount 666) \<noteq> payload_text (data (chain_list demo_chain ! 1))"
    unfolding b1 by (simp add: demo_block1_def input_simps)
  with payload_tamper_detected [OF demo_chain_valid len set_data_demo_666 inj]
  have "\<not> isChainValid sha256_hex tampered_chain" by blast
  with demo_chain_valid len set_data_demo_666 inj differs show ?thesis by blast
qed

text \<open>
  C5 as stated says that every change of a payload is detected. On the valid demo chain,
  \<open>chain[1].data = {amount: 6, memo: undefined}\<close> changes the payload of block 1, yet
  \<open>JSON.stringify\<close> leaves the \<open>undefined\<close> property out, the recomputed digest is the
  stored one and \<open>isChainValid\<close> still returns true.
\<close>

theorem payload_tamper_counterexample:
  "isChainValid sha256_hex demo_chain
   \<and> 2 \<le> length (chain_list demo_chain)
   \<and> data (chain_list demo_chain ! 1) \<noteq> amount6_memo
   \<and> set_data demo_chain 1 amount6_memo = Inr memo_chain
   \<and> isChainValid sha256_hex memo_chain"
  using demo_chain_valid set_data_demo_memo memo_chain_valid memo_differs
  by (simp add: demo_chain_def)

text \<open>
  C6, as amended. In a valid chain of at least 3 blocks, let a tamperer assign to block 1
  a new payload whose serialization differs from that of the old one and recalculate the
  stored digest of block 1, block 2 left as it is. Unless the digest function gives the old
  and the new text of block 1 the same digest, \<open>isChainValid\<close> returns false: block 1
  passes its own digest check and block 2 fails the linkage check.
\<close>

theorem recalculated_tamper_detected:
  assumes "isChainValid H c" and "3 \<le> length (chain_list c)"
    and "set_data c 1 p = Inr c1" and "recalculate_hash H c1 1 = Inr c2"
    and "payload_text p \<noteq> payload_text (data (chain_list c ! 1))"
    and "inj_on H {hash_input (chain_list c ! 1), hash_input ((chain_list c ! 1)\<lparr>data := p\<rparr>)}"
  shows "\<not> isChainValid H c2
       \<and> hash (chain_list c2 ! 1) = calculateHash H (chain_list c2 ! 1)
       \<and> previousHash (chain_list c2 ! 2) \<noteq> hash (chain_list c2 ! 1)"
proof -
  let ?b = "chain_list c ! 1"
  from assms(2) have "(1::nat) \<le> 1 \<and> 1 < length (chain_list c)" by simp
  with assms(1) have stored: "hash ?b = calculateHash H ?b"
    unfolding isChainValid_iff by blast
  from assms(2,3) have c1: "chain_list c1 = (chain_list c)[1 := ?b\<lparr>data := p\<rparr>]"
    by (auto simp: set_data_def split: if_splits)
  with assms(2,4) have "chain_list c2 ! 1 = ?b\<lparr>data := p, hash := calculateHash H (?b\<lparr>data := p\<rparr>)\<rparr>"
    by (auto simp: recalculate_hash_def split: if_splits)
  then have new: "hash (chain_list c2 ! 1) = H (hash_input (?b\<lparr>data := p\<rparr>))"
    by (simp add: calculateHash_def)
  from assms(5) have "hash_input (?b\<lparr>data := p\<rparr>) \<noteq> hash_input ?b"
    by (simp add: hash_input_payload)
  with assms(6) have "H (hash_input (?b\<lparr>data := p\<rparr>)) \<noteq> H (hash_input ?b)"
    by (auto simp: inj_on_def)
  with new stored have "hash (chain_list c2 ! 1) \<noteq> hash ?b"
    by (simp add: calculateHash_def)
  from recalculated_link_fails [OF assms(1,2,3,4) this] show ?thesis .
qed

theorem recalculated_tamper_detected_witness:
  "isChainValid sha256_hex demo_chain
   \<and> 3 \<le> length (chain_list demo_chain)
   \<and> set_data demo_chain 1 (amount 666) = Inr tampered_chain
   \<and> recalculate_hash sha256_hex tampered_chain 1 =
       Inr (tampered_chain\<lparr>chain_list := (chain_list tampered_chain)
              [1 := demo_block1\<lparr>data := amount 666,
                     hash := ''3dd9537db4fcde28a8875e7cac772f320edb99d6f20f0e97a12393e8a710d0e4''\<rparr>]\<rparr>)
   \<and> payload_text (amount 666) \<noteq> payload_text (data (chain_list demo_chain ! 1))
   \<and> inj_on sha256_hex {hash_input (chain_list demo_chain ! 1),
         hash_input ((chain_list demo_chain ! 1)\<lparr>data := amount 666\<rparr>)}
   \<and> \<not> isChainValid sha256_hex
         (tampered_chain\<lparr>chain_list := (chain_list tampered_chain)
              [1 := demo_block1\<lparr>data := amount 666,
                     hash := ''3dd9537db4fcde28a8875e7cac772f320edb99d6f20f0e97a12393e8a710d0e4''\<rparr>]\<rparr>)"
proof -
  let ?c2 = "tampered_chain\<lparr>chain_list := (chain_list tampered_chain)
              [1 := demo_block1\<lparr>data := amount 666,
                     hash := ''3dd9537db4fcde28a8875e7cac772f320edb99d6f20f0e97a12393e8a710d0e4''\<rparr>]\<rparr>"
  have len: "3 \<le> length (chain_list demo_chain)"
    by (simp add: demo_chain_def)
  have b1: "chain_list demo_chain ! 1 = demo_block1"
    by (simp add: demo_chain_def)
  have re: "recalculate_hash sha256_hex tampered_chain 1 = Inr ?c2"
    by (simp add: recalculate_hash_def tampered_chain_def demo_block1_digest_666)
  have differs: "payload_text (amount 666) \<noteq> payload_text (data (chain_list demo_chain ! 1))"
    unfolding b1 by (simp add: demo_block1_def input_simps)
  have "sha256_hex (hash_input demo_block1) \<noteq>
        sha256_hex (hash_input (demo_block1\<lparr>data := amount 666\<rparr>))"
    using demo_block1_digest demo_block1_digest_666 by (simp add: calculateHash_def)
  then have inj: "inj_on sha256_hex {hash_input (chain_list demo_chain ! 1),
         hash_input ((chain_list demo_chain ! 1)\<lparr>data := amount 666\<rparr>)}"
    unfolding b1 by (auto simp: inj_on_def)
  from recalculated_tamper_detected [OF demo_chain_valid len set_data_demo_666 re differs inj]
  have "\<not> isChainValid sha256_hex ?c2" by blast
  with demo_chain_valid len set_data_demo_666 re differs inj show ?thesis by blast
qed

text \<open>
  C6 as stated holds of every new payload. On the valid demo chain
  \<open>chain[1].data = {amount: 6, memo: undefined}\<close> changes the payload of block 1, yet its
  serialization is the old one: the recalculated digest of block 1 is the one it had,
  block 2 still links to it and \<open>isChainValid\<close> returns true.
\<close>

theorem recalculated_tamper_counterexample:
  "isChainValid sha256_hex demo_chain
   \<and> 3 \<le> length (chain_list demo_chain)
   \<and> data (chain_list demo_chain ! 1) \<noteq> amount6_memo
   \<and> set_data demo_chain 1 amount6_memo = Inr memo_chain
   \<and> recalculate_hash sha256_hex memo_chain 1 = Inr memo_chain
   \<and> isChainValid sha256_hex memo_chain"
proof -
  have "recalculate_hash sha256_hex memo_chain 1 = Inr memo_chain"
    by (simp add: recalculate_hash_def memo_chain_def demo_block1_digest_memo
        demo_block1_digest) (simp add: demo_block1_def)
  with demo_chain_valid set_data_demo_memo memo_chain_valid memo_differs show ?thesis
    by (simp add: demo_chain_def)
qed

text \<open>
  C7. Claimed: appending a candidate to a valid chain leaves it valid. The loop of
  \<open>mineBlock\<close> tests the digest the candidate already carries, the one computed at
  construction, before it recomputes anything. \<open>new Block("1", "21/01/2018", {amount: 212375})\<close>
  is constructed with a digest that starts with five zeros: appended to a new chain
  (difficulty 5) it is pushed with that digest, which does not match its fields now that
  \<open>previousHash\<close> is set, and the chain is no longer valid.
\<close>

theorem addBlock_breaks_validity:
  "isChainValid sha256_hex (Blockchain_new sha256_hex)
   \<and> addBlock sha256_hex (Blockchain_new sha256_hex) lucky_candidate =
       Some (Inr \<lparr>chain_list =
                    [createGenesisBlock sha256_hex,
                     lucky_candidate\<lparr>previousHash :=
                       ''d82f1af7edb68b9b4bf3872669e086e5f14edc8b4920389ba754d7870a3053ba''\<rparr>],
                  difficulty = 5\<rparr>)
   \<and> \<not> isChainValid sha256_hex
         \<lparr>chain_list =
            [createGenesisBlock sha256_hex,
             lucky_candidate\<lparr>previousHash :=
               ''d82f1af7edb68b9b4bf3872669e086e5f14edc8b4920389ba754d7870a3053ba''\<rparr>],
          difficulty = 5\<rparr>"
proof -
  have "isChainValid sha256_hex (Blockchain_new sha256_hex)"
    by (simp add: Blockchain_new_def isChainValid_single)
  moreover have "\<not> isChainValid sha256_hex
         \<lparr>chain_list =
            [createGenesisBlock sha256_hex,
             lucky_candidate\<lparr>previousHash :=
               ''d82f1af7edb68b9b4bf3872669e086e5f14edc8b4920389ba754d7870a3053ba''\<rparr>],
          difficulty = 5\<rparr>"
    unfolding isChainValid_two lucky_recomputed by (simp add: lucky_candidate_block)
  ultimately show ?thesis using lucky_add by blast
qed

text \<open>
  C8. A new chain holds exactly one block, the genesis block with index 0, the date
  \<open>23/01/2018\<close>, the payload \<open>Genesis block data\<close> and \<open>previousHash\<close> \<open>"0"\<close>; its difficulty
  is 5; and \<open>isChainValid\<close> returns true on it.
\<close>

theorem new_chain_is_genesis_and_valid:
  "chain_list (Blockchain_new H) = [createGenesisBlock H]
   \<and> length (chain_list (Blockchain_new H)) = 1
   \<and> index (createGenesisBlock H) = IndexNumber (js_int 0)
   \<and> timestamp (createGenesisBlock H) = ''23/01/2018''
   \<and> data (createGenesisBlock H) = JString ''Genesis block data''
   \<and> previousHash (createGenesisBlock H) = ''0''
   \<and> difficulty (Blockchain_new H) = 5
   \<and> isChainValid H (Blockchain_new H)"
  by (simp add: Blockchain_new_def isChainValid_single createGenesisBlock_def Block_new_def Let_def)

text \<open>
  C9. Two chains built at the same difficulty from construction sequences with the same
  text (step by step the indices print alike, the timestamps are equal and the payloads
  serialize alike; identical sequences are such) have the same sequence of digests, and
  two such runs that raise, or that do not return, do so alike. The sequence of a run that
  returns has one digest for the genesis block, the digest of the genesis text, and one
  for each step, each meeting the difficulty target.
\<close>

theorem digest_sequence_deterministic:
  \<open>list_all2 same_text steps steps
   \<and> (list_all2 same_text steps1 steps2 \<and> d1 = d2 \<longrightarrow>
        digest_sequence H d1 steps1 = digest_sequence H d2 steps2)
   \<and> (digest_sequence H d steps = Some (Inr ds) \<longrightarrow>
        length ds = Suc (length steps)
        \<and> ds ! 0 = H ''023/01/20180"Genesis block data"undefined''
        \<and> (\<forall>k. 1 \<le> k \<and> k < length ds \<longrightarrow> take d (ds ! k) = replicate d CHR ''0''))\<close>
proof (intro conjI impI)
  show "list_all2 same_text steps steps"
    by (simp add: list_all2_refl same_text_def)
  show "digest_sequence H d1 steps1 = digest_sequence H d2 steps2"
    if "list_all2 same_text steps1 steps2 \<and> d1 = d2"
    using that digest_sequence_same_text [of steps1 steps2 H d1] by simp
next
  assume run: "digest_sequence H d steps = Some (Inr ds)"
  from digest_sequence_shape [OF run]
  show "length ds = Suc (length steps)"
    and \<open>ds ! 0 = H ''023/01/20180"Genesis block data"undefined''\<close>
    and "\<forall>k. 1 \<le> k \<and> k < length ds \<longrightarrow> take d (ds ! k) = replicate d CHR ''0''"
    by (simp_all add: genesis_digest_text)
qed

theorem digest_sequence_deterministic_witness:
  "list_all2 same_text [demo_step1] [demo_step1_number]
   \<and> (1::nat) = 1
   \<and> demo_step1 \<noteq> demo_step1_number
   \<and> digest_sequence sha256_hex 1 [demo_step1] = digest_sequence sha256_hex 1 [demo_step1_number]
   \<and> digest_sequence sha256_hex 1 [demo_step1_number] =
       Some (Inr [''d82f1af7edb68b9b4bf3872669e086e5f14edc8b4920389ba754d7870a3053ba'',
                  ''07955b00f1b7b31749ef5b8a1a1a17a3f385abacd5abcc9305f08649cebb107d''])
   \<and> length [''d82f1af7edb68b9b4bf3872669e086e5f14edc8b4920389ba754d7870a3053ba'',
              ''07955b00f1b7b31749ef5b8a1a1a17a3f385abacd5abcc9305f08649cebb107d'']
       = Suc (length [demo_step1_number])"
proof -
  let ?ds = "[''d82f1af7edb68b9b4bf3872669e086e5f14edc8b4920389ba754d7870a3053ba'',
              ''07955b00f1b7b31749ef5b8a1a1a17a3f385abacd5abcc9305f08649cebb107d'']"
  have same: "list_all2 same_text [demo_step1] [demo_step1_number]"
    by (simp add: same_text_def demo_step1_def demo_step1_number_def amount6_memo_def
        input_simps)
  have differ: "demo_step1 \<noteq> demo_step1_number"
    by (simp add: demo_step1_def demo_step1_number_def)
  have "build_chain sha256_hex 1 [demo_step1] =
      Some (Inr ((chain_at 1)\<lparr>chain_list := chain_list (chain_at 1) @ [demo_mined1]\<rparr>))"
    unfolding build_chain_def chain_at_def [symmetric] demo_step1_def add_all.simps
      demo_candidate1_def [symmetric] demo_add1
    by simp
  then have run1: "digest_sequence sha256_hex 1 [demo_step1] = Some (Inr ?ds)"
    unfolding digest_sequence_def
    by (simp add: digests_def chain_at_def Blockchain_new_def genesis_block demo_mined1_def)
  from digest_sequence_deterministic [of "[demo_step1]" "[demo_step1]" "[demo_step1_number]"
      1 1 sha256_hex 1 ?ds] same
  have eq: "digest_sequence sha256_hex 1 [demo_step1] =
      digest_sequence sha256_hex 1 [demo_step1_number]"
    by blast
  with run1 have run2: "digest_sequence sha256_hex 1 [demo_step1_number] = Some (Inr ?ds)"
    by simp
  from digest_sequence_deterministic [of "[demo_step1_number]" "[demo_step1]"
      "[demo_step1_number]" 1 1 sha256_hex 1 ?ds] run2
  have "length ?ds = Suc (length [demo_step1_number])"
    by blast
  with same differ eq run2 show ?thesis by blast
qed

text \<open>
  C10. The result of \<open>isChainValid\<close> does not depend on the index, the timestamp or the
  payload of block 0: two chains that differ only in these fields of block 0 get the same
  result. A change of the genesis payload that leaves its stored digest alone is never
  detected.
\<close>

theorem isChainValid_ignores_genesis_fields:
  "isChainValid H \<lparr>chain_list = b0\<lparr>index := i, timestamp := t, data := p\<rparr> # rest, difficulty = d\<rparr>
     = isChainValid H \<lparr>chain_list = b0 # rest, difficulty = d\<rparr>"
proof -
  have "(b0\<lparr>index := i, timestamp := t, data := p\<rparr> # rest) ! j = (b0 # rest) ! j"
    if "1 \<le> j" for j
    using that by (cases j) simp_all
  moreover have "hash ((b0\<lparr>index := i, timestamp := t, data := p\<rparr> # rest) ! j) = hash ((b0 # rest) ! j)"
    for j
    by (cases j) simp_all
  ultimately show ?thesis
    unfolding isChainValid_iff by simp
qed

end
